theory Spec2Isabelle
  imports Main
begin

section \<open>doit.py: a command-line wrapper around vagrant and ansible\<close>

text \<open>
  The script parses its command line with argparse, looks the chosen subcommand up by
  name among the functions of the module and calls it with the parsed arguments as
  keyword arguments. Every function ends in \<^verbatim>\<open>subprocess.run(cmd, check=True, cwd=workdir)\<close>.

  What the script does to the outside world is the sequence of processes it starts, so
  the model threads a trace of invocations through every function. What the outside
  world does to the script is the exit status of each process, so the model takes a
  function that gives the exit status of an invocation, knowing the processes run before.
\<close>

subsection \<open>Base utility commands\<close>

definition ANSIBLE_LINT_CMD :: "string list" where
  "ANSIBLE_LINT_CMD = [''ansible-lint'']"

definition ANSIBLE_VAULT_CMD :: "string list" where
  "ANSIBLE_VAULT_CMD = [''ansible-vault'']"

definition VAGRANT_DESTROY_CMD :: "string list" where
  "VAGRANT_DESTROY_CMD = [''vagrant'', ''destroy'']"

definition VAGRANT_REPROVISION_CMD :: "string list" where
  "VAGRANT_REPROVISION_CMD = [''vagrant'', ''provision'']"

definition VAGRANT_SSH_CMD :: "string list" where
  "VAGRANT_SSH_CMD = [''vagrant'', ''ssh'']"

definition VAGRANT_STATUS_CMD :: "string list" where
  "VAGRANT_STATUS_CMD = [''vagrant'', ''status'']"

definition VAGRANT_UP_CMD :: "string list" where
  "VAGRANT_UP_CMD = [''vagrant'', ''up'']"

definition VAGRANT_VALIDATE_CMD :: "string list" where
  "VAGRANT_VALIDATE_CMD = [''vagrant'', ''validate'']"

subsection \<open>Processes, exceptions and the outside world\<close>

text \<open>
  One call of \<^verbatim>\<open>run\<close>: the command tokens and the \<^verbatim>\<open>cwd\<close> argument
  (\<open>None\<close>: the child inherits the working directory of the script).
\<close>

record invocation =
  cmd :: "string list"
  workdir :: "string option"

type_synonym trace = "invocation list"

text \<open>
  The exit status of a process, given the processes that ran before it. The tools are
  taken to be installed and the working directory to exist, so that \<^verbatim>\<open>run\<close> always
  starts the process and comes back with its exit status.
\<close>

type_synonym world = "trace \<Rightarrow> invocation \<Rightarrow> int"

text \<open>
  The exceptions the script can meet. \<^verbatim>\<open>parser.error\<close> and the help option of argparse
  raise \<open>SystemExit\<close> (status 2 and 0); \<^verbatim>\<open>run(..., check=True)\<close> raises
  \<open>CalledProcessError\<close> with the exit status and the command.
\<close>

datatype exn =
    SystemExit int
  | CalledProcessError int "string list"
  | NameError
  | TypeError

type_synonym result = "(exn + unit) \<times> trace"

definition run_cmd_and_exit :: "string list \<Rightarrow> string option \<Rightarrow> world \<Rightarrow> trace \<Rightarrow> result" where
  "run_cmd_and_exit c wd w tr =
     (let inv = \<lparr>cmd = c, workdir = wd\<rparr>;
          rc = w tr inv
      in (if rc = 0 then Inr () else Inl (CalledProcessError rc c), tr @ [inv]))"

text \<open>Two statements in a row: the second runs only when the first raised nothing.\<close>

definition and_then :: "(trace \<Rightarrow> result) \<Rightarrow> (trace \<Rightarrow> result) \<Rightarrow> trace \<Rightarrow> result" where
  "and_then f g tr =
     (case f tr of
        (Inl e, tr') \<Rightarrow> (Inl e, tr')
      | (Inr u, tr') \<Rightarrow> g tr')"

subsection \<open>Vagrant and Ansible functions\<close>

definition validate_vagrant :: "string \<Rightarrow> world \<Rightarrow> trace \<Rightarrow> result" where
  "validate_vagrant vagrantfile_path w =
     run_cmd_and_exit VAGRANT_VALIDATE_CMD (Some vagrantfile_path) w"

definition validate_ansible :: "string \<Rightarrow> world \<Rightarrow> trace \<Rightarrow> result" where
  "validate_ansible playbook_path w =
     run_cmd_and_exit (ANSIBLE_LINT_CMD @ [playbook_path]) None w"

definition validate :: "string \<Rightarrow> string \<Rightarrow> world \<Rightarrow> trace \<Rightarrow> result" where
  "validate vagrantfile_path playbook_path w =
     and_then (validate_vagrant vagrantfile_path w) (validate_ansible playbook_path w)"

text \<open>The function \<^verbatim>\<open>setup\<close> of the module.\<close>

definition setup_fn :: "string \<Rightarrow> string \<Rightarrow> world \<Rightarrow> trace \<Rightarrow> result" where
  "setup_fn vagrantfile_path playbook_path w =
     and_then (validate vagrantfile_path playbook_path w)
              (run_cmd_and_exit VAGRANT_UP_CMD (Some vagrantfile_path) w)"

definition status :: "string \<Rightarrow> world \<Rightarrow> trace \<Rightarrow> result" where
  "status vagrantfile_path w =
     run_cmd_and_exit VAGRANT_STATUS_CMD (Some vagrantfile_path) w"

definition enter :: "string \<Rightarrow> world \<Rightarrow> trace \<Rightarrow> result" where
  "enter vagrantfile_path w =
     run_cmd_and_exit VAGRANT_SSH_CMD (Some vagrantfile_path) w"

definition reprovision :: "string \<Rightarrow> string \<Rightarrow> world \<Rightarrow> trace \<Rightarrow> result" where
  "reprovision vagrantfile_path playbook_path w =
     and_then (validate vagrantfile_path playbook_path w)
              (run_cmd_and_exit VAGRANT_REPROVISION_CMD (Some vagrantfile_path) w)"

definition destroy :: "string \<Rightarrow> world \<Rightarrow> trace \<Rightarrow> result" where
  "destroy vagrantfile_path w =
     run_cmd_and_exit VAGRANT_DESTROY_CMD (Some vagrantfile_path) w"

definition encrypt_vault :: "string \<Rightarrow> world \<Rightarrow> trace \<Rightarrow> result" where
  "encrypt_vault vault_file_path w =
     run_cmd_and_exit (ANSIBLE_VAULT_CMD @ [''encrypt'', vault_file_path]) None w"

definition edit_vault :: "string \<Rightarrow> world \<Rightarrow> trace \<Rightarrow> result" where
  "edit_vault vault_file_path w =
     run_cmd_and_exit (ANSIBLE_VAULT_CMD @ [''edit'', vault_file_path]) None w"

definition view_vault :: "string \<Rightarrow> world \<Rightarrow> trace \<Rightarrow> result" where
  "view_vault vault_file_path w =
     run_cmd_and_exit (ANSIBLE_VAULT_CMD @ [''view'', vault_file_path]) None w"

definition rekey_vault :: "string \<Rightarrow> world \<Rightarrow> trace \<Rightarrow> result" where
  "rekey_vault vault_file_path w =
     run_cmd_and_exit (ANSIBLE_VAULT_CMD @ [''rekey'', vault_file_path]) None w"

subsection \<open>Calling a function of the module by name\<close>

text \<open>
  A function of the module as Python sees it when it is called with keyword arguments
  only: the names of its parameters (none has a default), whether it ends in
  \<^verbatim>\<open>**kwargs\<close>, and its body, applied to the values bound to the parameters.
\<close>

record pyfun =
  params :: "string list"
  var_kw :: bool
  body :: "string list \<Rightarrow> world \<Rightarrow> trace \<Rightarrow> result"

text \<open>
  \<^verbatim>\<open>f(**kw)\<close>: a parameter without a value is a \<open>TypeError\<close>, and so is a keyword that
  is no parameter, unless the function takes \<^verbatim>\<open>**kwargs\<close>.
\<close>

definition call_kw :: "pyfun \<Rightarrow> (string \<times> string) list \<Rightarrow> world \<Rightarrow> trace \<Rightarrow> result" where
  "call_kw f kw w tr =
     (if \<not> list_all (\<lambda>p. map_of kw p \<noteq> None) (params f) then (Inl TypeError, tr)
      else if \<not> var_kw f \<and> \<not> list_all (\<lambda>k. k \<in> set (params f)) (map fst kw)
        then (Inl TypeError, tr)
      else body f (map (\<lambda>p. the (map_of kw p)) (params f)) w tr)"

definition fn1 :: "string \<Rightarrow> (string \<Rightarrow> world \<Rightarrow> trace \<Rightarrow> result) \<Rightarrow> pyfun" where
  "fn1 p f = \<lparr>params = [p], var_kw = True, body = (\<lambda>a. f (hd a))\<rparr>"

definition fn2 :: "string \<Rightarrow> string \<Rightarrow> (string \<Rightarrow> string \<Rightarrow> world \<Rightarrow> trace \<Rightarrow> result) \<Rightarrow> pyfun" where
  "fn2 p q f = \<lparr>params = [p, q], var_kw = True, body = (\<lambda>a. f (hd a) (hd (tl a)))\<rparr>"

text \<open>
  The functions of the module that take paths, under the names the module binds them to,
  in the order of the file. All of them are declared with \<^verbatim>\<open>**kwargs\<close>.
\<close>

definition module_functions :: "(string \<times> pyfun) list" where
  "module_functions =
     [(''validate'', fn2 ''vagrantfile_path'' ''playbook_path'' validate),
      (''validate_vagrant'', fn1 ''vagrantfile_path'' validate_vagrant),
      (''setup'', fn2 ''vagrantfile_path'' ''playbook_path'' setup_fn),
      (''status'', fn1 ''vagrantfile_path'' status),
      (''enter'', fn1 ''vagrantfile_path'' enter),
      (''reprovision'', fn2 ''vagrantfile_path'' ''playbook_path'' reprovision),
      (''destroy'', fn1 ''vagrantfile_path'' destroy),
      (''validate_ansible'', fn1 ''playbook_path'' validate_ansible),
      (''encrypt_vault'', fn1 ''vault_file_path'' encrypt_vault),
      (''edit_vault'', fn1 ''vault_file_path'' edit_vault),
      (''view_vault'', fn1 ''vault_file_path'' view_vault),
      (''rekey_vault'', fn1 ''vault_file_path'' rekey_vault)]"

text \<open>
  \<^verbatim>\<open>eval(f'{name}(**all_arguments)')\<close>: a name the module does not bind is a
  \<open>NameError\<close>. Only the names argparse lets through reach this place, and of the
  other things the module binds (the parser functions, \<^verbatim>\<open>main\<close>, the imports, the
  constants) none has the name of a subcommand.
\<close>

definition eval_call :: "string \<Rightarrow> (string \<times> string) list \<Rightarrow> world \<Rightarrow> trace \<Rightarrow> result" where
  "eval_call name kw w tr =
     (case map_of module_functions name of
        None \<Rightarrow> (Inl NameError, tr)
      | Some f \<Rightarrow> call_kw f kw w tr)"

subsection \<open>Argument parser functions\<close>

text \<open>
  \<^verbatim>\<open>os.path.join\<close> on POSIX: a component that starts with a slash replaces what came
  before it, otherwise it is appended after exactly one slash.
\<close>

definition join2 :: "string \<Rightarrow> string \<Rightarrow> string" where
  "join2 a b =
     (if b \<noteq> [] \<and> hd b = CHR ''/'' then b
      else if a = [] \<or> last a = CHR ''/'' then a @ b
      else a @ ''/'' @ b)"

definition join :: "string \<Rightarrow> string list \<Rightarrow> string" where
  "join a ps = foldl join2 a ps"

text \<open>
  An option of a parser, as \<^verbatim>\<open>add_argument\<close> records it. Without an explicit
  \<^verbatim>\<open>dest\<close>, argparse takes the first long option string, strips the leading dashes
  and turns the other dashes into underscores.
\<close>

record argument =
  option_strings :: "string list"
  dest :: string
  default_value :: "string option"
  required :: bool

definition is_long :: "string \<Rightarrow> bool" where
  "is_long s = (length s > 1 \<and> s ! 1 = CHR ''-'')"

definition dest_of :: "string list \<Rightarrow> string" where
  "dest_of opts =
     map (\<lambda>c. if c = CHR ''-'' then CHR ''_'' else c)
         (dropWhile (\<lambda>c. c = CHR ''-'')
            (case filter is_long opts of [] \<Rightarrow> hd opts | l # ls \<Rightarrow> l))"

definition add_argument :: "string list \<Rightarrow> string option \<Rightarrow> bool \<Rightarrow> argument" where
  "add_argument opts dflt req =
     \<lparr>option_strings = opts, dest = dest_of opts, default_value = dflt, required = req\<rparr>"

text \<open>
  The parameter \<open>cwd\<close> of the functions below is what \<^verbatim>\<open>realpath('.')\<close> returns: the
  canonical absolute path of the directory the script is started in.
\<close>

definition add_argument_vagrantfile :: "string \<Rightarrow> argument" where
  "add_argument_vagrantfile cwd =
     add_argument [''--vagrantfile-path'', ''-f''] (Some cwd) False"

definition add_argument_playbook :: "string \<Rightarrow> argument" where
  "add_argument_playbook cwd =
     (let default_vagrantfile_path = cwd;
          default_playbook_path = join default_vagrantfile_path [''provisioning'', ''playbook.yml'']
      in add_argument [''--playbook-path'', ''-p''] (Some default_playbook_path) False)"

definition add_argument_vault_file :: "argument" where
  "add_argument_vault_file =
     add_argument [''--vault-file-path'', ''-f''] None True"

text \<open>A subparser: its name and its options (the help option apart).\<close>

definition add_subparser_to_vagrant_command :: "string \<Rightarrow> string \<Rightarrow> bool \<Rightarrow> string \<times> argument list" where
  "add_subparser_to_vagrant_command cwd name include_playbook =
     (name, add_argument_vagrantfile cwd #
            (if include_playbook then [add_argument_playbook cwd] else []))"

definition add_subparser_to_vault_command :: "string \<Rightarrow> string \<times> argument list" where
  "add_subparser_to_vault_command name = (name, [add_argument_vault_file])"

definition create_subparsers :: "string \<Rightarrow> (string \<times> argument list) list" where
  "create_subparsers cwd =
     [add_subparser_to_vagrant_command cwd ''setup'' True,
      add_subparser_to_vagrant_command cwd ''status'' False,
      add_subparser_to_vagrant_command cwd ''enter'' False,
      add_subparser_to_vagrant_command cwd ''reprovision'' True,
      add_subparser_to_vagrant_command cwd ''destroy'' False,
      add_subparser_to_vagrant_command cwd ''validate'' True,
      add_subparser_to_vagrant_command cwd ''validate_vagrant'' False,
      (''validate_playbook'', [add_argument_playbook cwd]),
      add_subparser_to_vault_command ''encrypt_vault'',
      add_subparser_to_vault_command ''edit_vault'',
      add_subparser_to_vault_command ''view_vault'',
      add_subparser_to_vault_command ''rekey_vault'']"

subsection \<open>The command line and argparse\<close>

text \<open>
  The command line after the name of the script. The first word that is no option is
  the subcommand; \<open>global_opts\<close> are the option words before it and \<open>sub_args\<close> is what
  follows it, which argparse hands to the subparser as a whole. What follows is read
  as argparse groups it: \<open>Opt s v\<close> is the word \<open>s\<close> followed by a value \<open>v\<close>, and
  \<open>Bare s\<close> is a word with no value after it. Option strings are compared as they are
  registered; the abbreviated and the joined spellings argparse also accepts
  (\<^verbatim>\<open>--playbook=x\<close>, \<^verbatim>\<open>-px\<close>) are taken as already written out.
\<close>

datatype token = Bare string | Opt string string

record cmdline =
  global_opts :: "string list"
  subcommand :: "string option"
  sub_args :: "token list"

text \<open>Every parser of argparse has the help option, which prints the help and exits with 0.\<close>

definition help_strings :: "string list" where
  "help_strings = [''-h'', ''--help'']"

definition set_attr :: "string \<Rightarrow> string \<Rightarrow> (string \<times> string) list \<Rightarrow> (string \<times> string) list" where
  "set_attr k v ns = (if k \<in> set (map fst ns) then map (\<lambda>(k', v'). if k' = k then (k', v) else (k', v')) ns
                      else ns @ [(k, v)])"

text \<open>
  Before it reads a word, a parser gives every option its default. An option without a
  default stays unset here (argparse sets it to \<^verbatim>\<open>None\<close>): the only such option is
  required, so a namespace that leaves the parser always has a value for it.
\<close>

definition defaults :: "argument list \<Rightarrow> (string \<times> string) list" where
  "defaults specs =
     foldl (\<lambda>ns a. case default_value a of None \<Rightarrow> ns | Some d \<Rightarrow> set_attr (dest a) d ns) [] specs"

text \<open>
  The loop of a subparser over its words, in order. The help option exits at once, an
  option of the parser without its value is an error at once, a word the parser does
  not know is put aside. The state is the namespace, the words put aside and the
  destinations seen.
\<close>

fun consume :: "argument list \<Rightarrow> token list \<Rightarrow> (string \<times> string) list \<Rightarrow> string list \<Rightarrow> string list
                \<Rightarrow> exn + ((string \<times> string) list \<times> string list \<times> string list)" where
  "consume specs [] ns extras seen = Inr (ns, extras, seen)"
| "consume specs (Bare s # ts) ns extras seen =
     (if s \<in> set help_strings then Inl (SystemExit 0)
      else case find (\<lambda>a. s \<in> set (option_strings a)) specs of
             Some a \<Rightarrow> Inl (SystemExit 2)
           | None \<Rightarrow> consume specs ts ns (extras @ [s]) seen)"
| "consume specs (Opt s v # ts) ns extras seen =
     (if s \<in> set help_strings then Inl (SystemExit 0)
      else case find (\<lambda>a. s \<in> set (option_strings a)) specs of
             Some a \<Rightarrow> consume specs ts (set_attr (dest a) v ns) extras (dest a # seen)
           | None \<Rightarrow> consume specs ts ns (extras @ [s, v]) seen)"

text \<open>After the loop, a required option that was not seen is an error.\<close>

definition parse_known_args :: "argument list \<Rightarrow> token list \<Rightarrow> exn + ((string \<times> string) list \<times> string list)" where
  "parse_known_args specs ts =
     (case consume specs ts (defaults specs) [] [] of
        Inl e \<Rightarrow> Inl e
      | Inr (ns, extras, seen) \<Rightarrow>
          if list_all (\<lambda>a. if required a then dest a \<in> set seen else True) specs then Inr (ns, extras)
          else Inl (SystemExit 2))"

text \<open>
  The namespace \<^verbatim>\<open>parse_args\<close> returns: the subcommand (\<open>None\<close> when the command line
  has none, the subparsers being optional) and the attributes the subparser has set.
\<close>

record namespace =
  ns_subcommand :: "string option"
  ns_attrs :: "(string \<times> string) list"

text \<open>
  The top-level parser has the help option and the subparsers, with \<^verbatim>\<open>dest='subcommand'\<close>.
  A help option before the subcommand exits with 0 before anything else is looked at. A
  name that is no subparser is an error, an error or a help option inside the subparser
  ends the run there, and words that were put aside, by either parser, are an error
  once the subparser is done. Every error is \<^verbatim>\<open>parser.error\<close>: the usage text and
  \<open>SystemExit\<close> with status 2.
\<close>

definition parse_args :: "string \<Rightarrow> cmdline \<Rightarrow> exn + namespace" where
  "parse_args cwd cl =
     (if \<not> list_all (\<lambda>s. s \<notin> set help_strings) (global_opts cl) then Inl (SystemExit 0)
      else case subcommand cl of
        None \<Rightarrow>
          if global_opts cl = [] then Inr \<lparr>ns_subcommand = None, ns_attrs = []\<rparr>
          else Inl (SystemExit 2)
      | Some name \<Rightarrow>
          (case map_of (create_subparsers cwd) name of
             None \<Rightarrow> Inl (SystemExit 2)
           | Some specs \<Rightarrow>
               (case parse_known_args specs (sub_args cl) of
                  Inl e \<Rightarrow> Inl e
                | Inr (ns, extras) \<Rightarrow>
                    if global_opts cl @ extras = []
                    then Inr \<lparr>ns_subcommand = Some name, ns_attrs = ns\<rparr>
                    else Inl (SystemExit 2))))"

subsection \<open>Main function\<close>

text \<open>
  \<^verbatim>\<open>main\<close> parses, refuses a namespace without a subcommand, puts all attributes of the
  namespace into a dictionary (\<^verbatim>\<open>vars(args)\<close>, the subcommand among them) and calls the
  function that has the name of the subcommand with the dictionary as keyword arguments.
  Only \<open>NameError\<close> is caught, and turned into \<^verbatim>\<open>parser.error\<close>; any other exception
  leaves \<^verbatim>\<open>main\<close>. The run starts with no process started.
\<close>

definition main :: "world \<Rightarrow> string \<Rightarrow> cmdline \<Rightarrow> result" where
  "main w cwd cl =
     (case parse_args cwd cl of
        Inl e \<Rightarrow> (Inl e, [])
      | Inr args \<Rightarrow>
          (case ns_subcommand args of
             None \<Rightarrow> (Inl (SystemExit 2), [])
           | Some sc \<Rightarrow>
               (let all_arguments = (''subcommand'', sc) # ns_attrs args
                in case eval_call sc all_arguments w [] of
                     (Inl NameError, tr) \<Rightarrow> (Inl (SystemExit 2), tr)
                   | r \<Rightarrow> r)))"

text \<open>
  The exit status of the interpreter: 0 when \<^verbatim>\<open>main\<close> returns, the code of a
  \<open>SystemExit\<close>, and 1 after the traceback of any other exception.
\<close>

fun exit_status :: "exn + unit \<Rightarrow> int" where
  "exit_status (Inr u) = 0"
| "exit_status (Inl (SystemExit n)) = n"
| "exit_status (Inl e) = 1"

subsection \<open>Notions the properties are stated with\<close>

text \<open>
  The value a command line gives to an option: the value after the last of its
  option strings, as argparse lets a later occurrence overwrite an earlier one.
\<close>

fun supplied :: "string list \<Rightarrow> token list \<Rightarrow> string option" where
  "supplied opts [] = None"
| "supplied opts (Bare s # ts) = supplied opts ts"
| "supplied opts (Opt s v # ts) =
     (case supplied opts ts of
        Some x \<Rightarrow> Some x
      | None \<Rightarrow> if s \<in> set opts then Some v else None)"

text \<open>The supplied or defaulted paths of a command line.\<close>

definition resolved_vagrantfile :: "string \<Rightarrow> cmdline \<Rightarrow> string" where
  "resolved_vagrantfile cwd cl =
     (case supplied [''--vagrantfile-path'', ''-f''] (sub_args cl) of
        Some v \<Rightarrow> v
      | None \<Rightarrow> cwd)"

definition resolved_playbook :: "string \<Rightarrow> cmdline \<Rightarrow> string" where
  "resolved_playbook cwd cl =
     (case supplied [''--playbook-path'', ''-p''] (sub_args cl) of
        Some v \<Rightarrow> v
      | None \<Rightarrow> join cwd [''provisioning'', ''playbook.yml''])"

text \<open>A command line asks for help when one of its words is the help option.\<close>

definition token_word :: "token \<Rightarrow> string" where
  "token_word t = (case t of Bare s \<Rightarrow> s | Opt s v \<Rightarrow> s)"

definition asks_help :: "cmdline \<Rightarrow> bool" where
  "asks_help cl =
     (list_ex (\<lambda>s. s \<in> set help_strings) (global_opts cl) \<or>
      list_ex (\<lambda>t. token_word t \<in> set help_strings) (sub_args cl))"

text \<open>The three kinds of process the script starts.\<close>

definition vagrant_at :: "string \<Rightarrow> string \<Rightarrow> invocation" where
  "vagrant_at sub dir = \<lparr>cmd = [''vagrant'', sub], workdir = Some dir\<rparr>"

definition lint_of :: "string \<Rightarrow> invocation" where
  "lint_of playbook = \<lparr>cmd = [''ansible-lint'', playbook], workdir = None\<rparr>"

definition vault_of :: "string \<Rightarrow> string \<Rightarrow> invocation" where
  "vault_of action file = \<lparr>cmd = [''ansible-vault'', action, file], workdir = None\<rparr>"

text \<open>
  The catalog as a table: the processes of each subcommand that has a function, in
  order, for a vagrantfile path, a playbook path and a vault file path.
\<close>

definition catalog_processes :: "string \<Rightarrow> string \<Rightarrow> string \<Rightarrow> string \<Rightarrow> invocation list" where
  "catalog_processes sc vf pb vault =
     (if sc = ''setup'' then [vagrant_at ''validate'' vf, lint_of pb, vagrant_at ''up'' vf]
      else if sc = ''status'' then [vagrant_at ''status'' vf]
      else if sc = ''enter'' then [vagrant_at ''ssh'' vf]
      else if sc = ''reprovision''
        then [vagrant_at ''validate'' vf, lint_of pb, vagrant_at ''provision'' vf]
      else if sc = ''destroy'' then [vagrant_at ''destroy'' vf]
      else if sc = ''validate'' then [vagrant_at ''validate'' vf, lint_of pb]
      else if sc = ''validate_vagrant'' then [vagrant_at ''validate'' vf]
      else if sc = ''encrypt_vault'' then [vault_of ''encrypt'' vault]
      else if sc = ''edit_vault'' then [vault_of ''edit'' vault]
      else if sc = ''view_vault'' then [vault_of ''view'' vault]
      else if sc = ''rekey_vault'' then [vault_of ''rekey'' vault]
      else [])"

definition vault_commands :: "string list" where
  "vault_commands = [''encrypt_vault'', ''edit_vault'', ''view_vault'', ''rekey_vault'']"

text \<open>
  Running a list of processes in order, each with \<^verbatim>\<open>check=True\<close>: the first one that
  exits with another status than 0 ends the run with its \<open>CalledProcessError\<close>.
\<close>

fun chain :: "world \<Rightarrow> trace \<Rightarrow> invocation list \<Rightarrow> result" where
  "chain w tr [] = (Inr (), tr)"
| "chain w tr (i # rest) =
     (if w tr i = 0 then chain w (tr @ [i]) rest
      else (Inl (CalledProcessError (w tr i) (cmd i)), tr @ [i]))"

text \<open>The value the loop of a subparser gives to a destination, by the parser's own lookup.\<close>

fun given :: "argument list \<Rightarrow> string \<Rightarrow> token list \<Rightarrow> string option" where
  "given specs d [] = None"
| "given specs d (Bare s # ts) = given specs d ts"
| "given specs d (Opt s v # ts) =
     (case given specs d ts of
        Some x \<Rightarrow> Some x
      | None \<Rightarrow> (case find (\<lambda>a. s \<in> set (option_strings a)) specs of
                   Some a \<Rightarrow> if dest a = d then Some v else None
                 | None \<Rightarrow> None))"

text \<open>
  The working directory of a process by its tool: \<^verbatim>\<open>vagrant\<close> runs in the vagrantfile
  path, \<^verbatim>\<open>ansible-lint\<close> and \<^verbatim>\<open>ansible-vault\<close> run where the script runs.
\<close>

definition workdir_rule :: "string \<Rightarrow> invocation \<Rightarrow> bool" where
  "workdir_rule vf i =
     (hd (cmd i) = ''vagrant'' \<and> workdir i = Some vf \<or>
      hd (cmd i) \<in> {''ansible-lint'', ''ansible-vault''} \<and> workdir i = None)"

section \<open>Properties\<close>

subsection \<open>The functions of the module as chains of processes\<close>

lemma run_cmd_and_exit_chain:
  "run_cmd_and_exit c wd w tr = chain w tr [\<lparr>cmd = c, workdir = wd\<rparr>]"
  by (simp add: run_cmd_and_exit_def Let_def)

lemma chain_append:
  "chain w tr (xs @ ys) =
     (case chain w tr xs of (Inl e, tr') \<Rightarrow> (Inl e, tr') | (Inr u, tr') \<Rightarrow> chain w tr' ys)"
  by (induction xs arbitrary: tr) simp_all

lemma and_then_chain:
  "and_then (\<lambda>tr. chain w tr xs) (\<lambda>tr. chain w tr ys) tr = chain w tr (xs @ ys)"
  by (simp add: and_then_def chain_append)

lemma status_run: "status vf w tr = chain w tr [vagrant_at ''status'' vf]"
  by (simp add: status_def run_cmd_and_exit_chain VAGRANT_STATUS_CMD_def vagrant_at_def)

lemma enter_run: "enter vf w tr = chain w tr [vagrant_at ''ssh'' vf]"
  by (simp add: enter_def run_cmd_and_exit_chain VAGRANT_SSH_CMD_def vagrant_at_def)

lemma destroy_run: "destroy vf w tr = chain w tr [vagrant_at ''destroy'' vf]"
  by (simp add: destroy_def run_cmd_and_exit_chain VAGRANT_DESTROY_CMD_def vagrant_at_def)

lemma validate_vagrant_run: "validate_vagrant vf w tr = chain w tr [vagrant_at ''validate'' vf]"
  by (simp add: validate_vagrant_def run_cmd_and_exit_chain VAGRANT_VALIDATE_CMD_def
      vagrant_at_def)

lemma validate_ansible_run: "validate_ansible pb w tr = chain w tr [lint_of pb]"
  by (simp add: validate_ansible_def run_cmd_and_exit_chain ANSIBLE_LINT_CMD_def lint_of_def)

lemma encrypt_vault_run: "encrypt_vault f w tr = chain w tr [vault_of ''encrypt'' f]"
  by (simp add: encrypt_vault_def run_cmd_and_exit_chain ANSIBLE_VAULT_CMD_def vault_of_def)

lemma edit_vault_run: "edit_vault f w tr = chain w tr [vault_of ''edit'' f]"
  by (simp add: edit_vault_def run_cmd_and_exit_chain ANSIBLE_VAULT_CMD_def vault_of_def)

lemma view_vault_run: "view_vault f w tr = chain w tr [vault_of ''view'' f]"
  by (simp add: view_vault_def run_cmd_and_exit_chain ANSIBLE_VAULT_CMD_def vault_of_def)

lemma rekey_vault_run: "rekey_vault f w tr = chain w tr [vault_of ''rekey'' f]"
  by (simp add: rekey_vault_def run_cmd_and_exit_chain ANSIBLE_VAULT_CMD_def vault_of_def)

lemma validate_run:
  "validate vf pb w tr = chain w tr [vagrant_at ''validate'' vf, lint_of pb]"
proof -
  have "validate vf pb w tr =
        and_then (\<lambda>tr. chain w tr [vagrant_at ''validate'' vf]) (\<lambda>tr. chain w tr [lint_of pb]) tr"
    by (simp add: validate_def and_then_def validate_vagrant_run validate_ansible_run)
  then show ?thesis by (simp only: and_then_chain append.simps)
qed

lemma setup_run:
  "setup_fn vf pb w tr =
     chain w tr [vagrant_at ''validate'' vf, lint_of pb, vagrant_at ''up'' vf]"
proof -
  have "setup_fn vf pb w tr =
        and_then (\<lambda>tr. chain w tr [vagrant_at ''validate'' vf, lint_of pb])
                 (\<lambda>tr. chain w tr [vagrant_at ''up'' vf]) tr"
    by (simp add: setup_fn_def and_then_def validate_run run_cmd_and_exit_chain
        VAGRANT_UP_CMD_def vagrant_at_def)
  then show ?thesis by (simp only: and_then_chain append.simps)
qed

lemma reprovision_run:
  "reprovision vf pb w tr =
     chain w tr [vagrant_at ''validate'' vf, lint_of pb, vagrant_at ''provision'' vf]"
proof -
  have "reprovision vf pb w tr =
        and_then (\<lambda>tr. chain w tr [vagrant_at ''validate'' vf, lint_of pb])
                 (\<lambda>tr. chain w tr [vagrant_at ''provision'' vf]) tr"
    by (simp add: reprovision_def and_then_def validate_run run_cmd_and_exit_chain
        VAGRANT_REPROVISION_CMD_def vagrant_at_def)
  then show ?thesis by (simp only: and_then_chain append.simps)
qed

lemma chain_caught:
  "(case chain w tr plan of (Inl NameError, tr') \<Rightarrow> (Inl (SystemExit 2), tr') | r \<Rightarrow> r)
     = chain w tr plan"
  by (induction plan arbitrary: tr) simp_all

lemma chain_all_zero:
  "\<forall>tr i. w tr i = 0 \<Longrightarrow> chain w tr plan = (Inr (), tr @ plan)"
  by (induction plan arbitrary: tr) simp_all

lemma chain_trace:
  "chain w tr plan = (r, tr') \<Longrightarrow> \<exists>k. k \<le> length plan \<and> tr' = tr @ take k plan"
proof (induction plan arbitrary: tr)
  case Nil
  then show ?case by simp
next
  case (Cons i rest)
  show ?case
  proof (cases "w tr i = 0")
    case True
    with Cons.prems have "chain w (tr @ [i]) rest = (r, tr')" by simp
    from Cons.IH [OF this] obtain k where "k \<le> length rest" and "tr' = (tr @ [i]) @ take k rest"
      by blast
    then have "Suc k \<le> length (i # rest) \<and> tr' = tr @ take (Suc k) (i # rest)" by simp
    then show ?thesis by blast
  next
    case False
    with Cons.prems have "tr' = tr @ take (Suc 0) (i # rest)" by auto
    then show ?thesis by (intro exI [of _ "Suc 0"]) simp
  qed
qed

subsection \<open>What the parser puts into the namespace\<close>

lemma map_of_overwrite_other:
  "d \<noteq> k \<Longrightarrow>
   map_of (map (\<lambda>(k', v'). if k' = k then (k', v) else (k', v')) xs) d = map_of xs d"
  by (induction xs) auto

lemma map_of_overwrite_same:
  "k \<in> set (map fst xs) \<Longrightarrow>
   map_of (map (\<lambda>(k', v'). if k' = k then (k', v) else (k', v')) xs) k = Some v"
  by (induction xs) auto

lemma map_of_set_attr:
  "map_of (set_attr k v ns) d = (if d = k then Some v else map_of ns d)"
proof (cases "k \<in> set (map fst ns)")
  case True
  then show ?thesis
    using map_of_overwrite_other [of d k v ns] map_of_overwrite_same [of k ns v]
    by (simp add: set_attr_def)
next
  case False
  then have "map_of ns k = None" by (simp add: map_of_eq_None_iff)
  with False show ?thesis
    by (auto simp: set_attr_def map_add_def split: option.splits)
qed

lemma consume_value:
  "consume specs ts ns ex seen = Inr (ns', ex', seen') \<Longrightarrow>
   map_of ns' d = (case given specs d ts of Some v \<Rightarrow> Some v | None \<Rightarrow> map_of ns d)"
proof (induction ts arbitrary: ns ex seen)
  case Nil
  then show ?case by simp
next
  case (Cons t ts)
  then show ?case
    by (cases t) (auto simp: map_of_set_attr split: if_splits option.splits)
qed

lemma consume_seen:
  "consume specs ts ns ex seen = Inr (ns', ex', seen') \<Longrightarrow>
   (d \<in> set seen') = (d \<in> set seen \<or> given specs d ts \<noteq> None)"
proof (induction ts arbitrary: ns ex seen)
  case Nil
  then show ?case by simp
next
  case (Cons t ts)
  then show ?case
    by (cases t) (auto split: if_splits option.splits)
qed

lemma vagrantfile_argument:
  "add_argument_vagrantfile cwd =
     \<lparr>option_strings = [''--vagrantfile-path'', ''-f''], dest = ''vagrantfile_path'',
      default_value = Some cwd, required = False\<rparr>"
  by (simp add: add_argument_vagrantfile_def add_argument_def dest_of_def is_long_def)

lemma playbook_argument:
  "add_argument_playbook cwd =
     \<lparr>option_strings = [''--playbook-path'', ''-p''], dest = ''playbook_path'',
      default_value = Some (join cwd [''provisioning'', ''playbook.yml'']), required = False\<rparr>"
  by (simp add: add_argument_playbook_def add_argument_def dest_of_def is_long_def)

lemma vault_file_argument:
  "add_argument_vault_file =
     \<lparr>option_strings = [''--vault-file-path'', ''-f''], dest = ''vault_file_path'',
      default_value = None, required = True\<rparr>"
  by (simp add: add_argument_vault_file_def add_argument_def dest_of_def is_long_def)

lemma given_vagrantfile_only:
  "given [add_argument_vagrantfile cwd] ''vagrantfile_path'' ts
     = supplied [''--vagrantfile-path'', ''-f''] ts"
proof (induction ts)
  case Nil
  show ?case by simp
next
  case (Cons t ts)
  then show ?case by (cases t) (simp_all add: vagrantfile_argument split: option.split)
qed

lemma given_vagrantfile:
  "given [add_argument_vagrantfile cwd, add_argument_playbook cwd] ''vagrantfile_path'' ts
     = supplied [''--vagrantfile-path'', ''-f''] ts"
proof (induction ts)
  case Nil
  show ?case by simp
next
  case (Cons t ts)
  then show ?case by (cases t) (simp_all add: vagrantfile_argument playbook_argument split: option.split)
qed

lemma given_playbook:
  "given [add_argument_vagrantfile cwd, add_argument_playbook cwd] ''playbook_path'' ts
     = supplied [''--playbook-path'', ''-p''] ts"
proof (induction ts)
  case Nil
  show ?case by simp
next
  case (Cons t ts)
  then show ?case by (cases t) (simp_all add: vagrantfile_argument playbook_argument split: option.split)
qed

lemma given_playbook_only:
  "given [add_argument_playbook cwd] ''playbook_path'' ts
     = supplied [''--playbook-path'', ''-p''] ts"
proof (induction ts)
  case Nil
  show ?case by simp
next
  case (Cons t ts)
  then show ?case by (cases t) (simp_all add: playbook_argument split: option.split)
qed

lemma given_vault_file:
  "given [add_argument_vault_file] ''vault_file_path'' ts
     = supplied [''--vault-file-path'', ''-f''] ts"
proof (induction ts)
  case Nil
  show ?case by simp
next
  case (Cons t ts)
  then show ?case by (cases t) (simp_all add: vault_file_argument split: option.split)
qed

lemma consume_Inl:
  "consume specs ts ns ex seen = Inl e \<Longrightarrow>
   e = SystemExit 2 \<or> (e = SystemExit 0 \<and> list_ex (\<lambda>t. token_word t \<in> set help_strings) ts)"
proof (induction ts arbitrary: ns ex seen)
  case Nil
  then show ?case by simp
next
  case (Cons t ts)
  then show ?case
    by (cases t) (auto simp: token_word_def split: if_splits option.splits)
qed

lemma parse_known_args_Inl:
  "parse_known_args specs ts = Inl e \<Longrightarrow>
   e = SystemExit 2 \<or> (e = SystemExit 0 \<and> list_ex (\<lambda>t. token_word t \<in> set help_strings) ts)"
  by (auto simp: parse_known_args_def split: sum.splits if_splits dest: consume_Inl)

lemma parse_known_args_value:
  assumes "parse_known_args specs ts = Inr (ns, ex)"
  shows "map_of ns d = (case given specs d ts of Some v \<Rightarrow> Some v | None \<Rightarrow> map_of (defaults specs) d)"
  using assms consume_value [of specs ts "defaults specs" "[]" "[]" ns]
  by (auto simp: parse_known_args_def split: sum.splits if_splits)

lemma parse_known_args_required:
  assumes "parse_known_args specs ts = Inr (ns, ex)" and "a \<in> set specs" and "required a"
  shows "given specs (dest a) ts \<noteq> None"
proof -
  from assms(1) obtain seen where c: "consume specs ts (defaults specs) [] [] = Inr (ns, ex, seen)"
    and r: "list_all (\<lambda>a. if required a then dest a \<in> set seen else True) specs"
    by (auto simp: parse_known_args_def split: sum.splits if_splits)
  from r assms(2,3) have "dest a \<in> set seen" by (auto simp: list_all_iff)
  with consume_seen [OF c, of "dest a"] show ?thesis by simp
qed

lemma subparser_of:
  "map_of (create_subparsers cwd) name =
     (if name \<in> {''setup'', ''reprovision'', ''validate''}
        then Some [add_argument_vagrantfile cwd, add_argument_playbook cwd]
      else if name \<in> {''status'', ''enter'', ''destroy'', ''validate_vagrant''}
        then Some [add_argument_vagrantfile cwd]
      else if name = ''validate_playbook'' then Some [add_argument_playbook cwd]
      else if name \<in> {''encrypt_vault'', ''edit_vault'', ''view_vault'', ''rekey_vault''}
        then Some [add_argument_vault_file]
      else None)"
  by (simp add: create_subparsers_def add_subparser_to_vagrant_command_def
      add_subparser_to_vault_command_def)

lemma parse_args_Inl:
  assumes "parse_args cwd cl = Inl e"
  shows "e = SystemExit 2 \<or> (e = SystemExit 0 \<and> asks_help cl)"
proof (cases "list_all (\<lambda>s. s \<notin> set help_strings) (global_opts cl)")
  case False
  then have "asks_help cl" by (auto simp: asks_help_def list_all_iff list_ex_iff)
  moreover from False assms have "e = SystemExit 0" by (simp add: parse_args_def)
  ultimately show ?thesis by simp
next
  case True
  show ?thesis
  proof (cases "subcommand cl")
    case None
    with True assms show ?thesis by (simp add: parse_args_def split: if_splits)
  next
    case (Some name)
    show ?thesis
    proof (cases "map_of (create_subparsers cwd) name")
      case None
      with True Some assms show ?thesis by (simp add: parse_args_def)
    next
      case (Some specs)
      show ?thesis
      proof (cases "parse_known_args specs (sub_args cl)")
        case (Inl e')
        with True \<open>subcommand cl = Some name\<close> Some assms have "e' = e"
          by (simp add: parse_args_def)
        with parse_known_args_Inl [OF Inl] show ?thesis
          by (auto simp: asks_help_def)
      next
        case (Inr p)
        with True \<open>subcommand cl = Some name\<close> Some assms show ?thesis
          by (cases p) (simp add: parse_args_def split: if_splits)
      qed
    qed
  qed
qed

lemma parse_args_None:
  assumes "parse_args cwd cl = Inr args" and "subcommand cl = None"
  shows "ns_subcommand args = None"
  using assms by (auto simp: parse_args_def split: if_splits)

lemma parse_args_Some:
  assumes "parse_args cwd cl = Inr args" and "subcommand cl = Some name"
  shows "ns_subcommand args = Some name \<and>
         (\<exists>specs. map_of (create_subparsers cwd) name = Some specs \<and>
                  parse_known_args specs (sub_args cl) = Inr (ns_attrs args, []))"
  using assms
  by (auto simp: parse_args_def split: if_splits option.splits sum.splits)

lemma attrs_vagrantfile_only:
  assumes "parse_known_args [add_argument_vagrantfile cwd] (sub_args cl) = Inr (ns, ex)"
  shows "map_of ns ''vagrantfile_path'' = Some (resolved_vagrantfile cwd cl)"
  using parse_known_args_value [OF assms, of "''vagrantfile_path''", unfolded given_vagrantfile_only]
  by (simp add: resolved_vagrantfile_def defaults_def vagrantfile_argument
      map_of_set_attr split: option.splits)

lemma attrs_vagrantfile:
  assumes "parse_known_args [add_argument_vagrantfile cwd, add_argument_playbook cwd] (sub_args cl)
           = Inr (ns, ex)"
  shows "map_of ns ''vagrantfile_path'' = Some (resolved_vagrantfile cwd cl)"
  using parse_known_args_value [OF assms, of "''vagrantfile_path''", unfolded given_vagrantfile]
  by (simp add: resolved_vagrantfile_def defaults_def vagrantfile_argument
      playbook_argument map_of_set_attr split: option.splits)

lemma attrs_playbook:
  assumes "parse_known_args [add_argument_vagrantfile cwd, add_argument_playbook cwd] (sub_args cl)
           = Inr (ns, ex)"
  shows "map_of ns ''playbook_path'' = Some (resolved_playbook cwd cl)"
  using parse_known_args_value [OF assms, of "''playbook_path''", unfolded given_playbook]
  by (simp add: resolved_playbook_def defaults_def vagrantfile_argument
      playbook_argument map_of_set_attr split: option.splits)

lemma attrs_vault_file:
  assumes "parse_known_args [add_argument_vault_file] (sub_args cl) = Inr (ns, ex)"
  shows "\<exists>v. supplied [''--vault-file-path'', ''-f''] (sub_args cl) = Some v \<and>
             map_of ns ''vault_file_path'' = Some v"
proof -
  have "required add_argument_vault_file" by (simp add: vault_file_argument)
  with parse_known_args_required [OF assms, of add_argument_vault_file]
  have "given [add_argument_vault_file] (dest add_argument_vault_file) (sub_args cl) \<noteq> None"
    by simp
  then obtain v where v: "supplied [''--vault-file-path'', ''-f''] (sub_args cl) = Some v"
    using given_vault_file [of "sub_args cl"] by (auto simp: vault_file_argument)
  with parse_known_args_value [OF assms, of "''vault_file_path''"] show ?thesis
    by (simp add: given_vault_file)
qed

lemma attrs_playbook_only:
  assumes "parse_known_args [add_argument_playbook cwd] (sub_args cl) = Inr (ns, ex)"
  shows "map_of ns ''playbook_path'' = Some (resolved_playbook cwd cl)"
  using parse_known_args_value [OF assms, of "''playbook_path''", unfolded given_playbook_only]
  by (simp add: resolved_playbook_def defaults_def playbook_argument
      map_of_set_attr split: option.splits)

lemma parsed_vagrantfile:
  assumes "parse_args cwd cl = Inr args" and "subcommand cl = Some sc"
    and "sc \<in> {''status'', ''enter'', ''destroy'', ''validate_vagrant'',
               ''setup'', ''reprovision'', ''validate''}"
  shows "map_of (ns_attrs args) ''vagrantfile_path'' = Some (resolved_vagrantfile cwd cl)"
  using parse_args_Some [OF assms(1,2)] assms(3)
  by (auto simp: subparser_of dest: attrs_vagrantfile_only attrs_vagrantfile)

lemma parsed_playbook:
  assumes "parse_args cwd cl = Inr args" and "subcommand cl = Some sc"
    and "sc \<in> {''setup'', ''reprovision'', ''validate'', ''validate_playbook''}"
  shows "map_of (ns_attrs args) ''playbook_path'' = Some (resolved_playbook cwd cl)"
  using parse_args_Some [OF assms(1,2)] assms(3)
  by (auto simp: subparser_of dest: attrs_playbook attrs_playbook_only)

lemma parsed_vault_file:
  assumes "parse_args cwd cl = Inr args" and "subcommand cl = Some sc"
    and "sc \<in> {''encrypt_vault'', ''edit_vault'', ''view_vault'', ''rekey_vault''}"
  shows "\<exists>v. supplied [''--vault-file-path'', ''-f''] (sub_args cl) = Some v \<and>
             map_of (ns_attrs args) ''vault_file_path'' = Some v"
  using parse_args_Some [OF assms(1,2)] assms(3)
  by (auto simp: subparser_of dest: attrs_vault_file)

lemma parsed_subcommand:
  assumes "parse_args cwd cl = Inr args" and "subcommand cl = Some sc"
  shows "sc \<in> {''setup'', ''status'', ''enter'', ''reprovision'', ''destroy'', ''validate'',
               ''validate_vagrant'', ''validate_playbook'', ''encrypt_vault'', ''edit_vault'',
               ''view_vault'', ''rekey_vault''}"
proof -
  from parse_args_Some [OF assms] have "map_of (create_subparsers cwd) sc \<noteq> None" by auto
  then show ?thesis by (auto simp: subparser_of split: if_splits)
qed

subsection \<open>What main does with the namespace\<close>

lemma main_Inl: "parse_args cwd cl = Inl e \<Longrightarrow> main w cwd cl = (Inl e, [])"
  by (simp add: main_def)

lemma main_no_subcommand:
  "parse_args cwd cl = Inr args \<Longrightarrow> subcommand cl = None \<Longrightarrow>
   main w cwd cl = (Inl (SystemExit 2), [])"
  by (simp add: main_def parse_args_None)

lemma main_Inr:
  assumes "parse_args cwd cl = Inr args" and "subcommand cl = Some sc"
  shows "main w cwd cl =
     (case eval_call sc ((''subcommand'', sc) # ns_attrs args) w [] of
        (Inl NameError, tr) \<Rightarrow> (Inl (SystemExit 2), tr)
      | r \<Rightarrow> r)"
  using assms parse_args_Some [OF assms] by (simp add: main_def)

lemma eval_call_fn1:
  assumes "map_of module_functions sc = Some (fn1 p f)" and "map_of kw p = Some a"
  shows "eval_call sc kw w tr = f a w tr"
  using assms by (simp add: eval_call_def call_kw_def fn1_def)

lemma eval_call_fn2:
  assumes "map_of module_functions sc = Some (fn2 p q f)"
    and "map_of kw p = Some a" and "map_of kw q = Some b"
  shows "eval_call sc kw w tr = f a b w tr"
  using assms by (simp add: eval_call_def call_kw_def fn2_def)

lemma module_function_of:
  "map_of module_functions ''validate'' = Some (fn2 ''vagrantfile_path'' ''playbook_path'' validate)"
  "map_of module_functions ''validate_vagrant'' = Some (fn1 ''vagrantfile_path'' validate_vagrant)"
  "map_of module_functions ''setup'' = Some (fn2 ''vagrantfile_path'' ''playbook_path'' setup_fn)"
  "map_of module_functions ''status'' = Some (fn1 ''vagrantfile_path'' status)"
  "map_of module_functions ''enter'' = Some (fn1 ''vagrantfile_path'' enter)"
  "map_of module_functions ''reprovision'' = Some (fn2 ''vagrantfile_path'' ''playbook_path'' reprovision)"
  "map_of module_functions ''destroy'' = Some (fn1 ''vagrantfile_path'' destroy)"
  "map_of module_functions ''validate_ansible'' = Some (fn1 ''playbook_path'' validate_ansible)"
  "map_of module_functions ''encrypt_vault'' = Some (fn1 ''vault_file_path'' encrypt_vault)"
  "map_of module_functions ''edit_vault'' = Some (fn1 ''vault_file_path'' edit_vault)"
  "map_of module_functions ''view_vault'' = Some (fn1 ''vault_file_path'' view_vault)"
  "map_of module_functions ''rekey_vault'' = Some (fn1 ''vault_file_path'' rekey_vault)"
  "map_of module_functions ''validate_playbook'' = None"
  by (simp_all add: module_functions_def)

lemma main_validate_playbook:
  assumes "parse_args cwd cl = Inr args" and "subcommand cl = Some ''validate_playbook''"
  shows "main w cwd cl = (Inl (SystemExit 2), [])"
  by (simp add: main_Inr [OF assms] eval_call_def module_function_of)

lemma main_vm1:
  assumes "parse_args cwd cl = Inr args"
  shows "subcommand cl = Some ''status'' \<Longrightarrow>
           main w cwd cl = chain w [] [vagrant_at ''status'' (resolved_vagrantfile cwd cl)]"
    and "subcommand cl = Some ''enter'' \<Longrightarrow>
           main w cwd cl = chain w [] [vagrant_at ''ssh'' (resolved_vagrantfile cwd cl)]"
    and "subcommand cl = Some ''destroy'' \<Longrightarrow>
           main w cwd cl = chain w [] [vagrant_at ''destroy'' (resolved_vagrantfile cwd cl)]"
    and "subcommand cl = Some ''validate_vagrant'' \<Longrightarrow>
           main w cwd cl = chain w [] [vagrant_at ''validate'' (resolved_vagrantfile cwd cl)]"
proof -
  show "main w cwd cl = chain w [] [vagrant_at ''status'' (resolved_vagrantfile cwd cl)]"
    if sc: "subcommand cl = Some ''status''"
    using parsed_vagrantfile [OF assms sc]
    by (simp add: main_Inr [OF assms sc] eval_call_fn1 [OF module_function_of(4)] status_run
        chain_caught)
  show "main w cwd cl = chain w [] [vagrant_at ''ssh'' (resolved_vagrantfile cwd cl)]"
    if sc: "subcommand cl = Some ''enter''"
    using parsed_vagrantfile [OF assms sc]
    by (simp add: main_Inr [OF assms sc] eval_call_fn1 [OF module_function_of(5)] enter_run
        chain_caught)
  show "main w cwd cl = chain w [] [vagrant_at ''destroy'' (resolved_vagrantfile cwd cl)]"
    if sc: "subcommand cl = Some ''destroy''"
    using parsed_vagrantfile [OF assms sc]
    by (simp add: main_Inr [OF assms sc] eval_call_fn1 [OF module_function_of(7)] destroy_run
        chain_caught)
  show "main w cwd cl = chain w [] [vagrant_at ''validate'' (resolved_vagrantfile cwd cl)]"
    if sc: "subcommand cl = Some ''validate_vagrant''"
    using parsed_vagrantfile [OF assms sc]
    by (simp add: main_Inr [OF assms sc] eval_call_fn1 [OF module_function_of(2)]
        validate_vagrant_run chain_caught)
qed

lemma main_vm2:
  assumes "parse_args cwd cl = Inr args"
  shows "subcommand cl = Some ''setup'' \<Longrightarrow>
           main w cwd cl = chain w [] [vagrant_at ''validate'' (resolved_vagrantfile cwd cl),
             lint_of (resolved_playbook cwd cl), vagrant_at ''up'' (resolved_vagrantfile cwd cl)]"
    and "subcommand cl = Some ''reprovision'' \<Longrightarrow>
           main w cwd cl = chain w [] [vagrant_at ''validate'' (resolved_vagrantfile cwd cl),
             lint_of (resolved_playbook cwd cl),
             vagrant_at ''provision'' (resolved_vagrantfile cwd cl)]"
    and "subcommand cl = Some ''validate'' \<Longrightarrow>
           main w cwd cl = chain w [] [vagrant_at ''validate'' (resolved_vagrantfile cwd cl),
             lint_of (resolved_playbook cwd cl)]"
proof -
  show "main w cwd cl = chain w [] [vagrant_at ''validate'' (resolved_vagrantfile cwd cl),
          lint_of (resolved_playbook cwd cl), vagrant_at ''up'' (resolved_vagrantfile cwd cl)]"
    if sc: "subcommand cl = Some ''setup''"
    using parsed_vagrantfile [OF assms sc] parsed_playbook [OF assms sc]
    by (simp add: main_Inr [OF assms sc] eval_call_fn2 [OF module_function_of(3)] setup_run
        chain_caught)
  show "main w cwd cl = chain w [] [vagrant_at ''validate'' (resolved_vagrantfile cwd cl),
          lint_of (resolved_playbook cwd cl),
          vagrant_at ''provision'' (resolved_vagrantfile cwd cl)]"
    if sc: "subcommand cl = Some ''reprovision''"
    using parsed_vagrantfile [OF assms sc] parsed_playbook [OF assms sc]
    by (simp add: main_Inr [OF assms sc] eval_call_fn2 [OF module_function_of(6)]
        reprovision_run chain_caught)
  show "main w cwd cl = chain w [] [vagrant_at ''validate'' (resolved_vagrantfile cwd cl),
          lint_of (resolved_playbook cwd cl)]"
    if sc: "subcommand cl = Some ''validate''"
    using parsed_vagrantfile [OF assms sc] parsed_playbook [OF assms sc]
    by (simp add: main_Inr [OF assms sc] eval_call_fn2 [OF module_function_of(1)] validate_run
        chain_caught)
qed

lemma main_vault:
  assumes "parse_args cwd cl = Inr args"
    and "supplied [''--vault-file-path'', ''-f''] (sub_args cl) = Some v"
  shows "subcommand cl = Some ''encrypt_vault'' \<Longrightarrow>
           main w cwd cl = chain w [] [vault_of ''encrypt'' v]"
    and "subcommand cl = Some ''edit_vault'' \<Longrightarrow>
           main w cwd cl = chain w [] [vault_of ''edit'' v]"
    and "subcommand cl = Some ''view_vault'' \<Longrightarrow>
           main w cwd cl = chain w [] [vault_of ''view'' v]"
    and "subcommand cl = Some ''rekey_vault'' \<Longrightarrow>
           main w cwd cl = chain w [] [vault_of ''rekey'' v]"
proof -
  show "main w cwd cl = chain w [] [vault_of ''encrypt'' v]"
    if sc: "subcommand cl = Some ''encrypt_vault''"
    using parsed_vault_file [OF assms(1) sc] assms(2)
    by (auto simp: main_Inr [OF assms(1) sc] eval_call_fn1 [OF module_function_of(9)]
        encrypt_vault_run chain_caught)
  show "main w cwd cl = chain w [] [vault_of ''edit'' v]"
    if sc: "subcommand cl = Some ''edit_vault''"
    using parsed_vault_file [OF assms(1) sc] assms(2)
    by (auto simp: main_Inr [OF assms(1) sc] eval_call_fn1 [OF module_function_of(10)]
        edit_vault_run chain_caught)
  show "main w cwd cl = chain w [] [vault_of ''view'' v]"
    if sc: "subcommand cl = Some ''view_vault''"
    using parsed_vault_file [OF assms(1) sc] assms(2)
    by (auto simp: main_Inr [OF assms(1) sc] eval_call_fn1 [OF module_function_of(11)]
        view_vault_run chain_caught)
  show "main w cwd cl = chain w [] [vault_of ''rekey'' v]"
    if sc: "subcommand cl = Some ''rekey_vault''"
    using parsed_vault_file [OF assms(1) sc] assms(2)
    by (auto simp: main_Inr [OF assms(1) sc] eval_call_fn1 [OF module_function_of(12)]
        rekey_vault_run chain_caught)
qed

lemma catalog_processes_simps:
  "catalog_processes ''setup'' vf pb v = [vagrant_at ''validate'' vf, lint_of pb, vagrant_at ''up'' vf]"
  "catalog_processes ''status'' vf pb v = [vagrant_at ''status'' vf]"
  "catalog_processes ''enter'' vf pb v = [vagrant_at ''ssh'' vf]"
  "catalog_processes ''reprovision'' vf pb v =
     [vagrant_at ''validate'' vf, lint_of pb, vagrant_at ''provision'' vf]"
  "catalog_processes ''destroy'' vf pb v = [vagrant_at ''destroy'' vf]"
  "catalog_processes ''validate'' vf pb v = [vagrant_at ''validate'' vf, lint_of pb]"
  "catalog_processes ''validate_vagrant'' vf pb v = [vagrant_at ''validate'' vf]"
  "catalog_processes ''encrypt_vault'' vf pb v = [vault_of ''encrypt'' v]"
  "catalog_processes ''edit_vault'' vf pb v = [vault_of ''edit'' v]"
  "catalog_processes ''view_vault'' vf pb v = [vault_of ''view'' v]"
  "catalog_processes ''rekey_vault'' vf pb v = [vault_of ''rekey'' v]"
  by (simp_all add: catalog_processes_def)

lemma catalog_cases:
  assumes "parse_args cwd cl = Inr args" and "subcommand cl = Some sc"
  obtains (setup_case) "sc = ''setup''" | (status) "sc = ''status''" | (enter) "sc = ''enter''"
    | (reprovision) "sc = ''reprovision''" | (destroy) "sc = ''destroy''"
    | (validate) "sc = ''validate''" | (validate_vagrant) "sc = ''validate_vagrant''"
    | (validate_playbook) "sc = ''validate_playbook''"
    | (encrypt_vault) "sc = ''encrypt_vault''" | (edit_vault) "sc = ''edit_vault''"
    | (view_vault) "sc = ''view_vault''" | (rekey_vault) "sc = ''rekey_vault''"
  using parsed_subcommand [OF assms] unfolding insert_iff empty_iff simp_thms
  by (elim disjE) (erule that)+

text \<open>
  Every subcommand that has a function runs the processes of the table, until one fails.
\<close>

lemma main_chain:
  assumes "parse_args cwd cl = Inr args" and "subcommand cl = Some sc"
    and "sc \<noteq> ''validate_playbook''"
  shows "\<exists>vault. (sc \<in> set vault_commands \<longrightarrow>
                    supplied [''--vault-file-path'', ''-f''] (sub_args cl) = Some vault) \<and>
           (\<forall>w. main w cwd cl =
                 chain w [] (catalog_processes sc (resolved_vagrantfile cwd cl)
                               (resolved_playbook cwd cl) vault))"
proof -
  let ?vf = "resolved_vagrantfile cwd cl" and ?pb = "resolved_playbook cwd cl"
  have vm: "?thesis"
    if "sc \<notin> set vault_commands" and "\<And>w. main w cwd cl = chain w [] (catalog_processes sc ?vf ?pb [])"
    using that by (intro exI [of _ "[]"]) simp
  have vault: "?thesis"
    if "\<And>v w. supplied [''--vault-file-path'', ''-f''] (sub_args cl) = Some v \<Longrightarrow>
          main w cwd cl = chain w [] (catalog_processes sc ?vf ?pb v)"
      and "sc \<in> {''encrypt_vault'', ''edit_vault'', ''view_vault'', ''rekey_vault''}"
  proof -
    from parsed_vault_file [OF assms(1,2) that(2)] obtain v
      where v: "supplied [''--vault-file-path'', ''-f''] (sub_args cl) = Some v"
      by (elim exE conjE)
    from that(1) [OF v] v show ?thesis by (intro exI [of _ v]) simp
  qed
  from assms(1,2) show ?thesis
  proof (cases rule: catalog_cases)
    case setup_case
    show ?thesis
      using main_vm2(1) [OF assms(1)] assms(2)
      by (intro vm) (simp_all add: setup_case vault_commands_def catalog_processes_simps)
  next
    case status
    show ?thesis
      using main_vm1(1) [OF assms(1)] assms(2)
      by (intro vm) (simp_all add: status vault_commands_def catalog_processes_simps)
  next
    case enter
    show ?thesis
      using main_vm1(2) [OF assms(1)] assms(2)
      by (intro vm) (simp_all add: enter vault_commands_def catalog_processes_simps)
  next
    case reprovision
    show ?thesis
      using main_vm2(2) [OF assms(1)] assms(2)
      by (intro vm) (simp_all add: reprovision vault_commands_def catalog_processes_simps)
  next
    case destroy
    show ?thesis
      using main_vm1(3) [OF assms(1)] assms(2)
      by (intro vm) (simp_all add: destroy vault_commands_def catalog_processes_simps)
  next
    case validate
    show ?thesis
      using main_vm2(3) [OF assms(1)] assms(2)
      by (intro vm) (simp_all add: validate vault_commands_def catalog_processes_simps)
  next
    case validate_vagrant
    show ?thesis
      using main_vm1(4) [OF assms(1)] assms(2)
      by (intro vm) (simp_all add: validate_vagrant vault_commands_def catalog_processes_simps)
  next
    case validate_playbook
    with assms(3) show ?thesis by simp
  next
    case encrypt_vault
    show ?thesis
      using main_vault(1) [OF assms(1)] assms(2)
      by (intro vault) (simp_all add: encrypt_vault catalog_processes_simps)
  next
    case edit_vault
    show ?thesis
      using main_vault(2) [OF assms(1)] assms(2)
      by (intro vault) (simp_all add: edit_vault catalog_processes_simps)
  next
    case view_vault
    show ?thesis
      using main_vault(3) [OF assms(1)] assms(2)
      by (intro vault) (simp_all add: view_vault catalog_processes_simps)
  next
    case rekey_vault
    show ?thesis
      using main_vault(4) [OF assms(1)] assms(2)
      by (intro vault) (simp_all add: rekey_vault catalog_processes_simps)
  qed
qed

subsection \<open>Every run of main\<close>

lemma main_outcome:
  obtains (usage) n where "\<And>w. main w cwd cl = (Inl (SystemExit n), [])" and "n = 0 \<or> n = 2"
  | (run) args sc vault where "parse_args cwd cl = Inr args" and "subcommand cl = Some sc"
      and "sc \<noteq> ''validate_playbook''"
      and "sc \<in> set vault_commands \<longrightarrow>
             supplied [''--vault-file-path'', ''-f''] (sub_args cl) = Some vault"
      and "\<And>w. main w cwd cl =
             chain w [] (catalog_processes sc (resolved_vagrantfile cwd cl)
                           (resolved_playbook cwd cl) vault)"
proof (cases "parse_args cwd cl")
  case (Inl e)
  from parse_args_Inl [OF Inl] obtain n where "e = SystemExit n" and "n = 0 \<or> n = 2" by auto
  with main_Inl [OF Inl] show ?thesis by (intro usage [of n]) simp_all
next
  case (Inr args)
  show ?thesis
  proof (cases "subcommand cl")
    case None
    from main_no_subcommand [OF Inr None] show ?thesis by (intro usage [of 2]) simp_all
  next
    case (Some sc)
    show ?thesis
    proof (cases "sc = ''validate_playbook''")
      case True
      with main_validate_playbook [OF Inr] Some show ?thesis by (intro usage [of 2]) simp_all
    next
      case False
      from main_chain [OF Inr Some False] obtain vault
        where v: "sc \<in> set vault_commands \<longrightarrow>
                 supplied [''--vault-file-path'', ''-f''] (sub_args cl) = Some vault"
          and m: "\<forall>w. main w cwd cl =
             chain w [] (catalog_processes sc (resolved_vagrantfile cwd cl)
                           (resolved_playbook cwd cl) vault)"
        by (elim exE conjE)
      from m have "main w cwd cl =
             chain w [] (catalog_processes sc (resolved_vagrantfile cwd cl)
                           (resolved_playbook cwd cl) vault)" for w ..
      with Inr Some False v show ?thesis by (intro run [of args sc vault])
    qed
  qed
qed

lemma chain_success:
  "chain w tr0 plan = (Inr (), tr) \<Longrightarrow> tr = tr0 @ plan"
proof (induction plan arbitrary: tr0)
  case Nil
  then show ?case by simp
next
  case (Cons j rest)
  then have "chain w (tr0 @ [j]) rest = (Inr (), tr)" by (simp split: if_splits)
  from Cons.IH [OF this] show ?case by simp
qed

lemma chain_failure:
  assumes "chain w tr0 plan = (r, tr)" and "length tr0 \<le> i" and "i < length tr"
    and "w (take i tr) (tr ! i) \<noteq> 0"
  shows "Suc i = length tr \<and> r = Inl (CalledProcessError (w (take i tr) (tr ! i)) (cmd (tr ! i)))"
  using assms
proof (induction plan arbitrary: tr0)
  case Nil
  then show ?case by simp
next
  case (Cons j rest)
  show ?case
  proof (cases "w tr0 j = 0")
    case True
    with Cons.prems(1) have c: "chain w (tr0 @ [j]) rest = (r, tr)" by simp
    from chain_trace [OF c] obtain k where tr: "tr = (tr0 @ [j]) @ take k rest" by blast
    show ?thesis
    proof (cases "i = length tr0")
      case True
      with tr have "take i tr = tr0" and "tr ! i = j" by (simp_all add: nth_append)
      with Cons.prems(4) \<open>w tr0 j = 0\<close> show ?thesis by simp
    next
      case False
      with Cons.prems(2) have "length (tr0 @ [j]) \<le> i" by simp
      from Cons.IH [OF c this Cons.prems(3,4)] show ?thesis .
    qed
  next
    case False
    with Cons.prems(1) have "tr = tr0 @ [j]" and "r = Inl (CalledProcessError (w tr0 j) (cmd j))"
      by auto
    moreover with Cons.prems(2,3) have "i = length tr0" by simp
    ultimately show ?thesis by (simp add: nth_append)
  qed
qed

lemma workdir_rule_simps:
  "workdir_rule vf (vagrant_at s vf)" "workdir_rule vf (lint_of pb)" "workdir_rule vf (vault_of a v)"
  by (simp_all add: workdir_rule_def vagrant_at_def lint_of_def vault_of_def)

lemma catalog_processes_workdir: "list_all (workdir_rule vf) (catalog_processes sc vf pb v)"
  by (simp add: catalog_processes_def workdir_rule_simps)

lemma chain_one: "chain w [] [a] = (r, tr) \<Longrightarrow> tr = [a]"
  by (auto split: if_splits)

lemma chain_two:
  "chain w [] [a, b] = (r, tr) \<Longrightarrow> tr = (if w [] a = 0 then [a, b] else [a])"
  by (auto split: if_splits)

lemma chain_three:
  "chain w [] [a, b, c] = (r, tr) \<Longrightarrow>
   tr = (if w [] a = 0 then if w [a] b = 0 then [a, b, c] else [a, b] else [a])"
  by (auto split: if_splits)

lemma vault_file_given:
  assumes "parse_args cwd cl = Inr args" and "subcommand cl = Some sc"
    and "sc \<in> {''encrypt_vault'', ''edit_vault'', ''view_vault'', ''rekey_vault''}"
  obtains v where "supplied [''--vault-file-path'', ''-f''] (sub_args cl) = Some v"
  using parsed_vault_file [OF assms] by (elim exE conjE)

lemma catalog_processes_length:
  assumes "parse_args cwd cl = Inr args" and "subcommand cl = Some sc"
    and "sc \<noteq> ''validate_playbook''"
  shows "length (catalog_processes sc vf pb v)
           = (if sc \<in> {''setup'', ''reprovision''} then 3 else if sc = ''validate'' then 2 else 1)"
  using assms(1,2)
proof (cases rule: catalog_cases)
  case validate_playbook
  with assms(3) show ?thesis by simp
qed (simp_all add: catalog_processes_simps)

subsection \<open>Keyword arguments\<close>

lemma chain_no_TypeError: "fst (chain w tr plan) \<noteq> Inl TypeError"
  by (induction plan arbitrary: tr) simp_all

lemma call_kw_agree:
  assumes "\<forall>p \<in> set (params f). map_of kw p = map_of kw' p" and "var_kw f"
  shows "call_kw f kw w tr = call_kw f kw' w tr"
proof -
  have l: "list_all (\<lambda>p. map_of kw p \<noteq> None) (params f)
             = list_all (\<lambda>p. map_of kw' p \<noteq> None) (params f)"
    using assms(1) by (simp add: list_all_iff)
  have m: "map (\<lambda>p. the (map_of kw p)) (params f) = map (\<lambda>p. the (map_of kw' p)) (params f)"
    using assms(1) by (intro map_cong) simp_all
  from assms(2) show ?thesis unfolding call_kw_def l m by simp
qed

lemma fn1_accepts:
  assumes "\<And>a w tr. \<exists>plan. g a w tr = chain w tr plan" and "p \<noteq> ''subcommand''"
  shows "var_kw (fn1 p g) \<and> ''subcommand'' \<notin> set (params (fn1 p g)) \<and>
         (list_all (\<lambda>p. map_of kw p \<noteq> None) (params (fn1 p g)) \<longrightarrow>
            fst (call_kw (fn1 p g) kw w tr) \<noteq> Inl TypeError)"
proof -
  have "fst (g a w tr) \<noteq> Inl TypeError" for a
    using assms(1) [of a w tr] chain_no_TypeError [of w tr] by auto
  with assms(2) show ?thesis by (auto simp: fn1_def call_kw_def)
qed

lemma fn2_accepts:
  assumes "\<And>a b w tr. \<exists>plan. g a b w tr = chain w tr plan"
    and "p \<noteq> ''subcommand''" and "q \<noteq> ''subcommand''"
  shows "var_kw (fn2 p q g) \<and> ''subcommand'' \<notin> set (params (fn2 p q g)) \<and>
         (list_all (\<lambda>p. map_of kw p \<noteq> None) (params (fn2 p q g)) \<longrightarrow>
            fst (call_kw (fn2 p q g) kw w tr) \<noteq> Inl TypeError)"
proof -
  have "fst (g a b w tr) \<noteq> Inl TypeError" for a b
    using assms(1) [of a b w tr] chain_no_TypeError [of w tr] by auto
  with assms(2,3) show ?thesis by (auto simp: fn2_def call_kw_def)
qed

lemma module_functions_cases:
  assumes "(name, f) \<in> set module_functions"
  obtains "f = fn2 ''vagrantfile_path'' ''playbook_path'' validate"
    | "f = fn1 ''vagrantfile_path'' validate_vagrant"
    | "f = fn2 ''vagrantfile_path'' ''playbook_path'' setup_fn"
    | "f = fn1 ''vagrantfile_path'' status"
    | "f = fn1 ''vagrantfile_path'' enter"
    | "f = fn2 ''vagrantfile_path'' ''playbook_path'' reprovision"
    | "f = fn1 ''vagrantfile_path'' destroy"
    | "f = fn1 ''playbook_path'' validate_ansible"
    | "f = fn1 ''vault_file_path'' encrypt_vault"
    | "f = fn1 ''vault_file_path'' edit_vault"
    | "f = fn1 ''vault_file_path'' view_vault"
    | "f = fn1 ''vault_file_path'' rekey_vault"
  using assms unfolding module_functions_def list.set insert_iff empty_iff prod.inject simp_thms
  by (elim disjE conjE) (erule that)+

lemma runs_are_chains:
  "\<And>a b w tr. \<exists>plan. validate a b w tr = chain w tr plan"
  "\<And>a w tr. \<exists>plan. validate_vagrant a w tr = chain w tr plan"
  "\<And>a b w tr. \<exists>plan. setup_fn a b w tr = chain w tr plan"
  "\<And>a w tr. \<exists>plan. status a w tr = chain w tr plan"
  "\<And>a w tr. \<exists>plan. enter a w tr = chain w tr plan"
  "\<And>a b w tr. \<exists>plan. reprovision a b w tr = chain w tr plan"
  "\<And>a w tr. \<exists>plan. destroy a w tr = chain w tr plan"
  "\<And>a w tr. \<exists>plan. validate_ansible a w tr = chain w tr plan"
  "\<And>a w tr. \<exists>plan. encrypt_vault a w tr = chain w tr plan"
  "\<And>a w tr. \<exists>plan. edit_vault a w tr = chain w tr plan"
  "\<And>a w tr. \<exists>plan. view_vault a w tr = chain w tr plan"
  "\<And>a w tr. \<exists>plan. rekey_vault a w tr = chain w tr plan"
  by (intro exI, rule validate_run validate_vagrant_run setup_run status_run enter_run
      reprovision_run destroy_run validate_ansible_run encrypt_vault_run edit_vault_run
      view_vault_run rekey_vault_run)+

lemma main_no_TypeError: "fst (main w cwd cl) \<noteq> Inl TypeError"
proof (cases rule: main_outcome [of cwd cl])
  case (usage n)
  from usage(1) [of w] show ?thesis by simp
next
  case (run args sc vault)
  from run(5) [of w] chain_no_TypeError [of w "[]"] show ?thesis by simp
qed

section \<open>The claims of the specification\<close>

subsection \<open>C1: the subcommand validate_playbook\<close>

text \<open>
  C1. The specification says that the subcommand \<^verbatim>\<open>validate_playbook\<close>, with an explicit
  or a defaulted playbook path, lints the playbook: one process, \<^verbatim>\<open>ansible-lint\<close> on
  the path. The parser knows the subcommand, but the module has no function of that
  name: the function that lints is called \<^verbatim>\<open>validate_ansible\<close>. So the lookup by name
  fails, \<^verbatim>\<open>main\<close> reports that the subcommand is not implemented and exits with
  status 2, and no process is started, whatever the playbook path. The function
  \<^verbatim>\<open>validate_ansible\<close> itself does what the specification describes.
\<close>

theorem validate_playbook_not_implemented:
  "main w cwd \<lparr>global_opts = [], subcommand = Some ''validate_playbook'', sub_args = []\<rparr>
     = (Inl (SystemExit 2), []) \<and>
   main w cwd \<lparr>global_opts = [], subcommand = Some ''validate_playbook'',
               sub_args = [Opt ''--playbook-path'' p]\<rparr>
     = (Inl (SystemExit 2), []) \<and>
   validate_ansible p w [] = chain w [] [lint_of p]"
proof -
  let ?a = "\<lparr>global_opts = [], subcommand = Some ''validate_playbook'', sub_args = []\<rparr>"
  let ?b = "\<lparr>global_opts = [], subcommand = Some ''validate_playbook'',
               sub_args = [Opt ''--playbook-path'' p]\<rparr>"
  have pa: "\<exists>args. parse_args cwd ?a = Inr args"
    by (simp add: parse_args_def subparser_of parse_known_args_def help_strings_def
        playbook_argument defaults_def)
  have pb: "\<exists>args. parse_args cwd ?b = Inr args"
    by (simp add: parse_args_def subparser_of parse_known_args_def help_strings_def
        playbook_argument defaults_def)
  from pa obtain x where "parse_args cwd ?a = Inr x" ..
  then have "main w cwd ?a = (Inl (SystemExit 2), [])"
    by (rule main_validate_playbook) simp
  moreover from pb obtain y where "parse_args cwd ?b = Inr y" ..
  then have "main w cwd ?b = (Inl (SystemExit 2), [])"
    by (rule main_validate_playbook) simp
  ultimately show ?thesis by (simp add: validate_ansible_run)
qed

subsection \<open>C2: the number of processes of each subcommand\<close>

text \<open>
  C2, as amended. For every subcommand of the catalog that has a function (all but
  \<^verbatim>\<open>validate_playbook\<close>), with arguments the parser accepts and every process
  exiting with 0, \<^verbatim>\<open>main\<close> returns normally after exactly the processes of the table,
  in that order, each with its command tokens and working directory: one process, except
  two for \<^verbatim>\<open>validate\<close> and three for \<^verbatim>\<open>setup\<close> and \<^verbatim>\<open>reprovision\<close>, whose
  prerequisite is itself the two processes of \<^verbatim>\<open>validate\<close>.
\<close>

theorem catalog_process_counts:
  assumes "parse_args cwd cl = Inr args" and "subcommand cl = Some sc"
    and "sc \<noteq> ''validate_playbook''" and "\<forall>tr i. w tr i = 0"
  shows "\<exists>vault.
           (sc \<in> set vault_commands \<longrightarrow>
              supplied [''--vault-file-path'', ''-f''] (sub_args cl) = Some vault) \<and>
           main w cwd cl =
             (Inr (), catalog_processes sc (resolved_vagrantfile cwd cl)
                        (resolved_playbook cwd cl) vault) \<and>
           length (snd (main w cwd cl))
             = (if sc \<in> {''setup'', ''reprovision''} then 3
                else if sc = ''validate'' then 2 else 1)"
proof -
  from main_chain [OF assms(1,2,3)] obtain vault
    where v: "sc \<in> set vault_commands \<longrightarrow>
                supplied [''--vault-file-path'', ''-f''] (sub_args cl) = Some vault"
      and m: "\<forall>w. main w cwd cl =
                chain w [] (catalog_processes sc (resolved_vagrantfile cwd cl)
                              (resolved_playbook cwd cl) vault)"
    by (elim exE conjE)
  let ?plan = "catalog_processes sc (resolved_vagrantfile cwd cl) (resolved_playbook cwd cl) vault"
  from m have "main w cwd cl = chain w [] ?plan" ..
  with chain_all_zero [OF assms(4), of "[]" ?plan] have r: "main w cwd cl = (Inr (), ?plan)"
    by simp
  with catalog_processes_length [OF assms(1,2,3), of "resolved_vagrantfile cwd cl"
      "resolved_playbook cwd cl" vault]
  have "length (snd (main w cwd cl))
          = (if sc \<in> {''setup'', ''reprovision''} then 3 else if sc = ''validate'' then 2 else 1)"
    by (simp only: snd_conv)
  with v r show ?thesis by (intro exI [of _ vault] conjI)
qed

theorem catalog_process_counts_witness:
  "parse_args ''/home/u/project''
      \<lparr>global_opts = [], subcommand = Some ''reprovision'', sub_args = []\<rparr>
     = Inr \<lparr>ns_subcommand = Some ''reprovision'',
            ns_attrs = [(''vagrantfile_path'', ''/home/u/project''),
                        (''playbook_path'', ''/home/u/project/provisioning/playbook.yml'')]\<rparr> \<and>
   length (snd (main (\<lambda>tr i. 0) ''/home/u/project''
      \<lparr>global_opts = [], subcommand = Some ''reprovision'', sub_args = []\<rparr>)) = 3 \<and>
   main (\<lambda>tr i. 0) ''/home/u/project''
      \<lparr>global_opts = [], subcommand = Some ''reprovision'', sub_args = []\<rparr>
     = (Inr (),
        [\<lparr>cmd = [''vagrant'', ''validate''], workdir = Some ''/home/u/project''\<rparr>,
         \<lparr>cmd = [''ansible-lint'', ''/home/u/project/provisioning/playbook.yml''],
          workdir = None\<rparr>,
         \<lparr>cmd = [''vagrant'', ''provision''], workdir = Some ''/home/u/project''\<rparr>])"
proof -
  let ?w = "\<lambda>(tr :: trace) (i :: invocation). 0 :: int"
  let ?cl = "\<lparr>global_opts = [], subcommand = Some ''reprovision'', sub_args = []\<rparr>"
  let ?args = "\<lparr>ns_subcommand = Some ''reprovision'',
            ns_attrs = [(''vagrantfile_path'', ''/home/u/project''),
                        (''playbook_path'', ''/home/u/project/provisioning/playbook.yml'')]\<rparr>"
  have p: "parse_args ''/home/u/project'' ?cl = Inr ?args" by code_simp
  have s: "subcommand ?cl = Some ''reprovision''" by simp
  have n: "''reprovision'' \<noteq> ''validate_playbook''" by simp
  have z: "\<forall>tr i. ?w tr i = 0" by simp
  have m: "main ?w ''/home/u/project'' ?cl
     = (Inr (),
        [\<lparr>cmd = [''vagrant'', ''validate''], workdir = Some ''/home/u/project''\<rparr>,
         \<lparr>cmd = [''ansible-lint'', ''/home/u/project/provisioning/playbook.yml''],
          workdir = None\<rparr>,
         \<lparr>cmd = [''vagrant'', ''provision''], workdir = Some ''/home/u/project''\<rparr>])"
    by code_simp
  from catalog_process_counts [OF p s n z]
  have "length (snd (main ?w ''/home/u/project'' ?cl)) = 3" by simp
  with p m show ?thesis by simp
qed

text \<open>
  The claim as stated gives \<^verbatim>\<open>setup\<close> two processes. With the default arguments and
  every process exiting with 0 it starts three.
\<close>

theorem setup_starts_three_processes:
  "main (\<lambda>tr i. 0) ''/home/u/project''
      \<lparr>global_opts = [], subcommand = Some ''setup'', sub_args = []\<rparr>
     = (Inr (),
        [\<lparr>cmd = [''vagrant'', ''validate''], workdir = Some ''/home/u/project''\<rparr>,
         \<lparr>cmd = [''ansible-lint'', ''/home/u/project/provisioning/playbook.yml''],
          workdir = None\<rparr>,
         \<lparr>cmd = [''vagrant'', ''up''], workdir = Some ''/home/u/project''\<rparr>]) \<and>
   length (snd (main (\<lambda>tr i. 0) ''/home/u/project''
      \<lparr>global_opts = [], subcommand = Some ''setup'', sub_args = []\<rparr>)) \<noteq> 2"
  by code_simp

subsection \<open>C3: setup validates first\<close>

text \<open>
  C3. For the subcommand \<^verbatim>\<open>setup\<close>, with any vagrantfile path and playbook path
  (supplied or defaulted): the first process, if there is one, is \<^verbatim>\<open>vagrant validate\<close>
  in the vagrantfile path, and there is one whenever the parser accepts the arguments;
  \<^verbatim>\<open>vagrant up\<close> is only ever started as the third process, after both validation
  processes have exited with 0; so when a validation process exits with another status,
  \<^verbatim>\<open>vagrant up\<close> is never started.
\<close>

theorem setup_validates_first:
  assumes "subcommand cl = Some ''setup''" and "main w cwd cl = (r, tr)"
  shows "(tr = [] \<or> hd tr = vagrant_at ''validate'' (resolved_vagrantfile cwd cl)) \<and>
         ((\<exists>i \<in> set tr. cmd i = VAGRANT_UP_CMD) \<longrightarrow>
            tr = [vagrant_at ''validate'' (resolved_vagrantfile cwd cl),
                  lint_of (resolved_playbook cwd cl),
                  vagrant_at ''up'' (resolved_vagrantfile cwd cl)] \<and>
            w [] (vagrant_at ''validate'' (resolved_vagrantfile cwd cl)) = 0 \<and>
            w [vagrant_at ''validate'' (resolved_vagrantfile cwd cl)]
              (lint_of (resolved_playbook cwd cl)) = 0) \<and>
         (w [] (vagrant_at ''validate'' (resolved_vagrantfile cwd cl)) \<noteq> 0 \<or>
          w [vagrant_at ''validate'' (resolved_vagrantfile cwd cl)]
            (lint_of (resolved_playbook cwd cl)) \<noteq> 0 \<longrightarrow>
            (\<forall>i \<in> set tr. cmd i \<noteq> VAGRANT_UP_CMD)) \<and>
         ((\<exists>args. parse_args cwd cl = Inr args) \<longrightarrow> tr \<noteq> [])"
proof (cases "parse_args cwd cl")
  case (Inl e)
  from main_Inl [OF Inl, of w] assms(2) have "tr = []" by simp
  with Inl show ?thesis by simp
next
  case (Inr args)
  let ?vv = "vagrant_at ''validate'' (resolved_vagrantfile cwd cl)"
  let ?lint = "lint_of (resolved_playbook cwd cl)"
  let ?up = "vagrant_at ''up'' (resolved_vagrantfile cwd cl)"
  have c: "cmd ?vv \<noteq> VAGRANT_UP_CMD" "cmd ?lint \<noteq> VAGRANT_UP_CMD" "cmd ?up = VAGRANT_UP_CMD"
    by (simp_all add: vagrant_at_def lint_of_def VAGRANT_UP_CMD_def)
  from main_vm2(1) [OF Inr assms(1), of w] assms(2)
  have m: "chain w [] [?vv, ?lint, ?up] = (r, tr)" by simp
  show ?thesis
  proof (cases "w [] ?vv = 0")
    case False
    with m have "tr = [?vv]" by auto
    with False c show ?thesis by simp
  next
    case True
    show ?thesis
    proof (cases "w [?vv] ?lint = 0")
      case False
      with True m have "tr = [?vv, ?lint]" by auto
      with False c show ?thesis by simp
    next
      case l: True
      with True m have "tr = [?vv, ?lint, ?up]" by (auto split: if_splits)
      with True l c show ?thesis by simp
    qed
  qed
qed

theorem setup_validates_first_witness:
  "main (\<lambda>tr i. if cmd i = [''ansible-lint'', ''site.yml''] then 4 else 0) ''/home/u/project''
     \<lparr>global_opts = [], subcommand = Some ''setup'',
      sub_args = [Opt ''--vagrantfile-path'' ''/vm'', Opt ''--playbook-path'' ''site.yml'']\<rparr>
     = (Inl (CalledProcessError 4 [''ansible-lint'', ''site.yml'']),
        [\<lparr>cmd = [''vagrant'', ''validate''], workdir = Some ''/vm''\<rparr>,
         \<lparr>cmd = [''ansible-lint'', ''site.yml''], workdir = None\<rparr>]) \<and>
   hd [\<lparr>cmd = [''vagrant'', ''validate''], workdir = Some ''/vm''\<rparr>,
       \<lparr>cmd = [''ansible-lint'', ''site.yml''], workdir = None\<rparr>]
     = vagrant_at ''validate'' ''/vm'' \<and>
   list_all (\<lambda>i. cmd i \<noteq> VAGRANT_UP_CMD)
     [\<lparr>cmd = [''vagrant'', ''validate''], workdir = Some ''/vm''\<rparr>,
      \<lparr>cmd = [''ansible-lint'', ''site.yml''], workdir = None\<rparr>]"
proof -
  let ?w = "\<lambda>(tr :: trace) i. if cmd i = [''ansible-lint'', ''site.yml''] then 4 else (0 :: int)"
  let ?cl = "\<lparr>global_opts = [], subcommand = Some ''setup'',
      sub_args = [Opt ''--vagrantfile-path'' ''/vm'', Opt ''--playbook-path'' ''site.yml'']\<rparr>"
  let ?tr = "[\<lparr>cmd = [''vagrant'', ''validate''], workdir = Some ''/vm''\<rparr>,
         \<lparr>cmd = [''ansible-lint'', ''site.yml''], workdir = None\<rparr>]"
  have a: "subcommand ?cl = Some ''setup''" by simp
  have m: "main ?w ''/home/u/project'' ?cl
             = (Inl (CalledProcessError 4 [''ansible-lint'', ''site.yml'']), ?tr)"
    by code_simp
  have v: "resolved_vagrantfile ''/home/u/project'' ?cl = ''/vm''" by code_simp
  have "hd ?tr = vagrant_at ''validate'' ''/vm''"
    using setup_validates_first [OF a m] v by simp
  moreover have "list_all (\<lambda>i. cmd i \<noteq> VAGRANT_UP_CMD) ?tr"
    by (simp add: VAGRANT_UP_CMD_def)
  ultimately show ?thesis using m by simp
qed

subsection \<open>C4: a process that fails\<close>

text \<open>
  C4, as amended. Whenever a process the script has started exits with a status other
  than 0, it is the last process of the run, and the script ends with the uncaught
  \<open>CalledProcessError\<close> of that process, which carries its exit status and its command
  tokens. The exit status of the script itself is then 1, whatever the status of the
  process was.
\<close>

theorem failing_process_ends_the_run:
  assumes "main w cwd cl = (r, tr)" and "i < length tr" and "w (take i tr) (tr ! i) \<noteq> 0"
  shows "Suc i = length tr \<and>
         r = Inl (CalledProcessError (w (take i tr) (tr ! i)) (cmd (tr ! i))) \<and>
         exit_status r = 1"
proof (cases rule: main_outcome [of cwd cl])
  case (usage n)
  with assms(1,2) show ?thesis by simp
next
  case (run args sc vault)
  with assms(1) have "chain w [] (catalog_processes sc (resolved_vagrantfile cwd cl)
                           (resolved_playbook cwd cl) vault) = (r, tr)" by simp
  from chain_failure [OF this _ assms(2,3)] show ?thesis by simp
qed

theorem failing_process_ends_the_run_witness:
  "main (\<lambda>tr i. 2) ''/home/u/project''
      \<lparr>global_opts = [], subcommand = Some ''status'', sub_args = []\<rparr>
     = (Inl (CalledProcessError 2 [''vagrant'', ''status'']),
        [\<lparr>cmd = [''vagrant'', ''status''], workdir = Some ''/home/u/project''\<rparr>]) \<and>
   exit_status (Inl (CalledProcessError 2 [''vagrant'', ''status''])) = 1"
proof -
  let ?w = "\<lambda>(tr :: trace) (i :: invocation). 2 :: int"
  let ?cl = "\<lparr>global_opts = [], subcommand = Some ''status'', sub_args = []\<rparr>"
  let ?i = "\<lparr>cmd = [''vagrant'', ''status''], workdir = Some ''/home/u/project''\<rparr>"
  have m: "main ?w ''/home/u/project'' ?cl
             = (Inl (CalledProcessError 2 [''vagrant'', ''status'']), [?i])"
    by code_simp
  from failing_process_ends_the_run [OF m, of 0] m show ?thesis by simp
qed

text \<open>
  The claim as stated makes the exit status of the script the status of the failing
  process. When \<^verbatim>\<open>vagrant status\<close> exits with 2, the script exits with 1.
\<close>

theorem exit_status_is_not_the_process_status:
  "exit_status (fst (main (\<lambda>tr i. 2) ''/home/u/project''
      \<lparr>global_opts = [], subcommand = Some ''status'', sub_args = []\<rparr>)) = 1 \<and>
   snd (main (\<lambda>tr i. 2) ''/home/u/project''
      \<lparr>global_opts = [], subcommand = Some ''status'', sub_args = []\<rparr>)
     = [\<lparr>cmd = [''vagrant'', ''status''], workdir = Some ''/home/u/project''\<rparr>]"
  by code_simp

subsection \<open>C5: a subcommand that is not in the catalog\<close>

text \<open>
  C5, as amended. For every command line whose subcommand is not a name of the catalog,
  or is missing, the script starts no process. It exits with status 2, unless a help
  option stands before the place of the subcommand: then argparse prints the help and
  the script exits with status 0.
\<close>

theorem unknown_subcommand_exits:
  assumes "subcommand cl \<notin> Some ` set (map fst (create_subparsers cwd))"
  shows "snd (main w cwd cl) = [] \<and>
         exit_status (fst (main w cwd cl))
           = (if list_ex (\<lambda>s. s \<in> set help_strings) (global_opts cl) then 0 else 2)"
proof (cases "list_ex (\<lambda>s. s \<in> set help_strings) (global_opts cl)")
  case True
  then have "\<not> list_all (\<lambda>s. s \<notin> set help_strings) (global_opts cl)"
    by (simp add: list_all_iff list_ex_iff)
  then have "parse_args cwd cl = Inl (SystemExit 0)" by (simp add: parse_args_def)
  from main_Inl [OF this] True show ?thesis by simp
next
  case False
  then have h: "list_all (\<lambda>s. s \<notin> set help_strings) (global_opts cl)"
    by (simp add: list_all_iff list_ex_iff)
  have "main w cwd cl = (Inl (SystemExit 2), [])"
  proof (cases "subcommand cl")
    case None
    with h show ?thesis by (simp add: main_def parse_args_def)
  next
    case (Some sc)
    with assms have "sc \<notin> fst ` set (create_subparsers cwd)" by auto
    then have "map_of (create_subparsers cwd) sc = None" by (simp add: map_of_eq_None_iff)
    with h Some show ?thesis by (simp add: main_def parse_args_def)
  qed
  with False show ?thesis by simp
qed

theorem unknown_subcommand_exits_witness:
  "Some ''deploy'' \<notin> Some ` set (map fst (create_subparsers ''/home/u/project'')) \<and>
   main (\<lambda>tr i. 0) ''/home/u/project''
     \<lparr>global_opts = [], subcommand = Some ''deploy'', sub_args = []\<rparr>
     = (Inl (SystemExit 2), [])"
proof -
  let ?cl = "\<lparr>global_opts = [], subcommand = Some ''deploy'', sub_args = []\<rparr>"
  have a: "subcommand ?cl \<notin> Some ` set (map fst (create_subparsers ''/home/u/project''))"
    by (simp add: create_subparsers_def add_subparser_to_vagrant_command_def
        add_subparser_to_vault_command_def image_iff)
  have m: "main (\<lambda>tr i. 0) ''/home/u/project'' ?cl = (Inl (SystemExit 2), [])" by code_simp
  from unknown_subcommand_exits [OF a, of "\<lambda>tr i. 0"] a m show ?thesis by simp
qed

text \<open>
  The claim as stated gives every command line without a subcommand a status other
  than 0. The command line \<^verbatim>\<open>--help\<close> has no subcommand and exits with 0.
\<close>

theorem help_without_subcommand_exits_zero:
  "exit_status (fst (main (\<lambda>tr i. 0) ''/home/u/project''
      \<lparr>global_opts = [''--help''], subcommand = None, sub_args = []\<rparr>)) = 0"
  by code_simp

subsection \<open>C6: a vault subcommand without its file\<close>

text \<open>
  C6, as amended. For every vault subcommand whose command line gives no value to
  \<^verbatim>\<open>--vault-file-path\<close> (or \<^verbatim>\<open>-f\<close>), the script starts no process. It exits with
  status 2, unless the command line asks for help: only then can it exit with status 0.
\<close>

theorem vault_file_required:
  assumes "subcommand cl = Some sc" and "sc \<in> set vault_commands"
    and "supplied [''--vault-file-path'', ''-f''] (sub_args cl) = None"
  shows "snd (main w cwd cl) = [] \<and>
         (exit_status (fst (main w cwd cl)) = 2 \<or>
          asks_help cl \<and> exit_status (fst (main w cwd cl)) = 0)"
proof (cases "parse_args cwd cl")
  case (Inl e)
  from parse_args_Inl [OF Inl] main_Inl [OF Inl, of w] show ?thesis by auto
next
  case (Inr args)
  from assms(2) have "sc \<in> {''encrypt_vault'', ''edit_vault'', ''view_vault'', ''rekey_vault''}"
    by (simp add: vault_commands_def)
  from parsed_vault_file [OF Inr assms(1) this] assms(3) show ?thesis by simp
qed

theorem vault_file_required_witness:
  "''encrypt_vault'' \<in> set vault_commands \<and>
   supplied [''--vault-file-path'', ''-f''] [] = None \<and>
   main (\<lambda>tr i. 0) ''/home/u/project''
     \<lparr>global_opts = [], subcommand = Some ''encrypt_vault'', sub_args = []\<rparr>
     = (Inl (SystemExit 2), [])"
proof -
  let ?cl = "\<lparr>global_opts = [], subcommand = Some ''encrypt_vault'', sub_args = []\<rparr>"
  have a: "subcommand ?cl = Some ''encrypt_vault''" by simp
  have b: "''encrypt_vault'' \<in> set vault_commands" by (simp add: vault_commands_def)
  have c: "supplied [''--vault-file-path'', ''-f''] (sub_args ?cl) = None" by simp
  have m: "main (\<lambda>tr i. 0) ''/home/u/project'' ?cl = (Inl (SystemExit 2), [])" by code_simp
  from vault_file_required [OF a b c, of "\<lambda>tr i. 0" "''/home/u/project''"] b c m
  show ?thesis by simp
qed

text \<open>
  The claim as stated gives every such command line a status other than 0. The command
  line \<^verbatim>\<open>encrypt_vault --help\<close> gives no vault file and exits with 0.
\<close>

theorem vault_help_exits_zero:
  "supplied [''--vault-file-path'', ''-f''] [Bare ''--help''] = None \<and>
   exit_status (fst (main (\<lambda>tr i. 0) ''/home/u/project''
      \<lparr>global_opts = [], subcommand = Some ''encrypt_vault'', sub_args = [Bare ''--help'']\<rparr>)) = 0"
  by code_simp

subsection \<open>C7: the default playbook path\<close>

text \<open>
  C7. When the command line gives no playbook path and the script is started in
  \<^verbatim>\<open>/home/u/project\<close>, the playbook path in the namespace is
  \<^verbatim>\<open>/home/u/project/provisioning/playbook.yml\<close>, for each of the four subcommands that
  take a playbook path.
\<close>

theorem default_playbook_path:
  assumes "parse_args ''/home/u/project'' cl = Inr args"
    and "subcommand cl = Some sc"
    and "sc \<in> {''setup'', ''reprovision'', ''validate'', ''validate_playbook''}"
    and "supplied [''--playbook-path'', ''-p''] (sub_args cl) = None"
  shows "map_of (ns_attrs args) ''playbook_path''
           = Some ''/home/u/project/provisioning/playbook.yml''"
  using parsed_playbook [OF assms(1,2,3)] assms(4)
  by (simp add: resolved_playbook_def join_def join2_def)

theorem default_playbook_path_witness:
  "parse_args ''/home/u/project''
      \<lparr>global_opts = [], subcommand = Some ''setup'', sub_args = [Opt ''-f'' ''/vm'']\<rparr>
     = Inr \<lparr>ns_subcommand = Some ''setup'',
            ns_attrs = [(''vagrantfile_path'', ''/vm''),
                        (''playbook_path'', ''/home/u/project/provisioning/playbook.yml'')]\<rparr> \<and>
   supplied [''--playbook-path'', ''-p''] [Opt ''-f'' ''/vm''] = None \<and>
   map_of [(''vagrantfile_path'', ''/vm''),
           (''playbook_path'', ''/home/u/project/provisioning/playbook.yml'')] ''playbook_path''
     = Some ''/home/u/project/provisioning/playbook.yml''"
proof -
  let ?cl = "\<lparr>global_opts = [], subcommand = Some ''setup'', sub_args = [Opt ''-f'' ''/vm'']\<rparr>"
  let ?args = "\<lparr>ns_subcommand = Some ''setup'',
            ns_attrs = [(''vagrantfile_path'', ''/vm''),
                        (''playbook_path'', ''/home/u/project/provisioning/playbook.yml'')]\<rparr>"
  have p: "parse_args ''/home/u/project'' ?cl = Inr ?args" by code_simp
  have s: "supplied [''--playbook-path'', ''-p''] (sub_args ?cl) = None" by simp
  show ?thesis
    using p s default_playbook_path [OF p _ _ s, of "''setup''"] by simp
qed

subsection \<open>C8: working directories\<close>

text \<open>
  C8. Every process of every run is either a \<^verbatim>\<open>vagrant\<close> command with the supplied or
  defaulted vagrantfile path as its working directory, or an \<^verbatim>\<open>ansible-lint\<close> or
  \<^verbatim>\<open>ansible-vault\<close> command that inherits the working directory of the script; and
  \<^verbatim>\<open>validate_ansible\<close> always starts the linter that way. Whenever the parser accepts
  the command line, the processes are these, whatever their exit statuses:
  \<^verbatim>\<open>status\<close>, \<^verbatim>\<open>enter\<close>, \<^verbatim>\<open>destroy\<close> and \<^verbatim>\<open>validate_vagrant\<close> start exactly
  their \<^verbatim>\<open>vagrant\<close> command in the vagrantfile path; every vault subcommand starts
  exactly its \<^verbatim>\<open>ansible-vault\<close> command on the supplied file, in the inherited
  directory; \<^verbatim>\<open>validate\<close>, \<^verbatim>\<open>setup\<close> and \<^verbatim>\<open>reprovision\<close> start
  \<^verbatim>\<open>vagrant validate\<close> in the vagrantfile path, then, if it exited with 0, the linter
  in the inherited directory, then, if that exited with 0 too, \<^verbatim>\<open>setup\<close> and
  \<^verbatim>\<open>reprovision\<close> start their own \<^verbatim>\<open>vagrant\<close> command in the vagrantfile path.
\<close>

theorem working_directories:
  assumes "main w cwd cl = (r, tr)"
  shows "(\<forall>i \<in> set tr.
            hd (cmd i) = ''vagrant'' \<and> workdir i = Some (resolved_vagrantfile cwd cl) \<or>
            hd (cmd i) \<in> {''ansible-lint'', ''ansible-vault''} \<and> workdir i = None) \<and>
         vagrant_at s d = \<lparr>cmd = [''vagrant'', s], workdir = Some d\<rparr> \<and>
         lint_of p = \<lparr>cmd = [''ansible-lint'', p], workdir = None\<rparr> \<and>
         vault_of a f = \<lparr>cmd = [''ansible-vault'', a, f], workdir = None\<rparr> \<and>
         snd (validate_ansible p w tr0) = tr0 @ [lint_of p] \<and>
         ((\<exists>args. parse_args cwd cl = Inr args) \<longrightarrow>
            (subcommand cl = Some ''status'' \<longrightarrow>
               tr = [vagrant_at ''status'' (resolved_vagrantfile cwd cl)]) \<and>
            (subcommand cl = Some ''enter'' \<longrightarrow>
               tr = [vagrant_at ''ssh'' (resolved_vagrantfile cwd cl)]) \<and>
            (subcommand cl = Some ''destroy'' \<longrightarrow>
               tr = [vagrant_at ''destroy'' (resolved_vagrantfile cwd cl)]) \<and>
            (subcommand cl = Some ''validate_vagrant'' \<longrightarrow>
               tr = [vagrant_at ''validate'' (resolved_vagrantfile cwd cl)]) \<and>
            (subcommand cl = Some ''setup'' \<longrightarrow>
               tr = (if w [] (vagrant_at ''validate'' (resolved_vagrantfile cwd cl)) = 0
                     then if w [vagrant_at ''validate'' (resolved_vagrantfile cwd cl)]
                               (lint_of (resolved_playbook cwd cl)) = 0
                          then [vagrant_at ''validate'' (resolved_vagrantfile cwd cl),
                                lint_of (resolved_playbook cwd cl),
                                vagrant_at ''up'' (resolved_vagrantfile cwd cl)]
                          else [vagrant_at ''validate'' (resolved_vagrantfile cwd cl),
                                lint_of (resolved_playbook cwd cl)]
                     else [vagrant_at ''validate'' (resolved_vagrantfile cwd cl)])) \<and>
            (subcommand cl = Some ''reprovision'' \<longrightarrow>
               tr = (if w [] (vagrant_at ''validate'' (resolved_vagrantfile cwd cl)) = 0
                     then if w [vagrant_at ''validate'' (resolved_vagrantfile cwd cl)]
                               (lint_of (resolved_playbook cwd cl)) = 0
                          then [vagrant_at ''validate'' (resolved_vagrantfile cwd cl),
                                lint_of (resolved_playbook cwd cl),
                                vagrant_at ''provision'' (resolved_vagrantfile cwd cl)]
                          else [vagrant_at ''validate'' (resolved_vagrantfile cwd cl),
                                lint_of (resolved_playbook cwd cl)]
                     else [vagrant_at ''validate'' (resolved_vagrantfile cwd cl)])) \<and>
            (subcommand cl = Some ''validate'' \<longrightarrow>
               tr = (if w [] (vagrant_at ''validate'' (resolved_vagrantfile cwd cl)) = 0
                     then [vagrant_at ''validate'' (resolved_vagrantfile cwd cl),
                           lint_of (resolved_playbook cwd cl)]
                     else [vagrant_at ''validate'' (resolved_vagrantfile cwd cl)])) \<and>
            (subcommand cl = Some ''encrypt_vault'' \<longrightarrow>
               (\<exists>v. supplied [''--vault-file-path'', ''-f''] (sub_args cl) = Some v \<and>
                    tr = [vault_of ''encrypt'' v])) \<and>
            (subcommand cl = Some ''edit_vault'' \<longrightarrow>
               (\<exists>v. supplied [''--vault-file-path'', ''-f''] (sub_args cl) = Some v \<and>
                    tr = [vault_of ''edit'' v])) \<and>
            (subcommand cl = Some ''view_vault'' \<longrightarrow>
               (\<exists>v. supplied [''--vault-file-path'', ''-f''] (sub_args cl) = Some v \<and>
                    tr = [vault_of ''view'' v])) \<and>
            (subcommand cl = Some ''rekey_vault'' \<longrightarrow>
               (\<exists>v. supplied [''--vault-file-path'', ''-f''] (sub_args cl) = Some v \<and>
                    tr = [vault_of ''rekey'' v])))"
    (is "?every \<and> ?va \<and> ?li \<and> ?vo \<and> ?lint \<and> ?accepted")
proof -
  let ?vf = "resolved_vagrantfile cwd cl" and ?pb = "resolved_playbook cwd cl"
  have "\<forall>i \<in> set tr. workdir_rule ?vf i"
  proof (cases rule: main_outcome [of cwd cl])
    case (usage n)
    from usage(1) [of w] assms have "tr = []" by simp
    then show ?thesis by simp
  next
    case (run args sc vault)
    let ?plan = "catalog_processes sc ?vf ?pb vault"
    from run(5) [of w] assms have c: "chain w [] ?plan = (r, tr)" by simp
    from chain_trace [OF c] obtain k where "tr = take k ?plan" by auto
    then have "set tr \<subseteq> set ?plan" by (simp add: set_take_subset)
    with catalog_processes_workdir [of ?vf sc ?pb vault] show ?thesis
      by (auto simp: list_all_iff)
  qed
  then have every: ?every unfolding workdir_rule_def .
  have va: ?va by (simp add: vagrant_at_def)
  have li: ?li by (simp add: lint_of_def)
  have vo: ?vo by (simp add: vault_of_def)
  have lint: ?lint by (simp add: validate_ansible_run)
  have accepted: ?accepted
  proof (intro impI, elim exE, intro conjI impI)
    fix args
    assume a: "parse_args cwd cl = Inr args"
    have m: "chain w [] plan = (r, tr)" if "main w cwd cl = chain w [] plan" for plan
      using that assms by simp
    show "tr = [vagrant_at ''status'' ?vf]" if s: "subcommand cl = Some ''status''"
      by (rule chain_one [OF m [OF main_vm1(1) [OF a s]]])
    show "tr = [vagrant_at ''ssh'' ?vf]" if s: "subcommand cl = Some ''enter''"
      by (rule chain_one [OF m [OF main_vm1(2) [OF a s]]])
    show "tr = [vagrant_at ''destroy'' ?vf]" if s: "subcommand cl = Some ''destroy''"
      by (rule chain_one [OF m [OF main_vm1(3) [OF a s]]])
    show "tr = [vagrant_at ''validate'' ?vf]" if s: "subcommand cl = Some ''validate_vagrant''"
      by (rule chain_one [OF m [OF main_vm1(4) [OF a s]]])
    show "tr = (if w [] (vagrant_at ''validate'' ?vf) = 0
                then if w [vagrant_at ''validate'' ?vf] (lint_of ?pb) = 0
                     then [vagrant_at ''validate'' ?vf, lint_of ?pb, vagrant_at ''up'' ?vf]
                     else [vagrant_at ''validate'' ?vf, lint_of ?pb]
                else [vagrant_at ''validate'' ?vf])"
      if s: "subcommand cl = Some ''setup''"
      by (rule chain_three [OF m [OF main_vm2(1) [OF a s]]])
    show "tr = (if w [] (vagrant_at ''validate'' ?vf) = 0
                then if w [vagrant_at ''validate'' ?vf] (lint_of ?pb) = 0
                     then [vagrant_at ''validate'' ?vf, lint_of ?pb, vagrant_at ''provision'' ?vf]
                     else [vagrant_at ''validate'' ?vf, lint_of ?pb]
                else [vagrant_at ''validate'' ?vf])"
      if s: "subcommand cl = Some ''reprovision''"
      by (rule chain_three [OF m [OF main_vm2(2) [OF a s]]])
    show "tr = (if w [] (vagrant_at ''validate'' ?vf) = 0
                then [vagrant_at ''validate'' ?vf, lint_of ?pb]
                else [vagrant_at ''validate'' ?vf])"
      if s: "subcommand cl = Some ''validate''"
      by (rule chain_two [OF m [OF main_vm2(3) [OF a s]]])
    show "\<exists>v. supplied [''--vault-file-path'', ''-f''] (sub_args cl) = Some v \<and>
              tr = [vault_of ''encrypt'' v]"
      if s: "subcommand cl = Some ''encrypt_vault''"
    proof -
      have "''encrypt_vault'' \<in> {''encrypt_vault'', ''edit_vault'', ''view_vault'', ''rekey_vault''}"
        by simp
      from vault_file_given [OF a s this] obtain v
        where v: "supplied [''--vault-file-path'', ''-f''] (sub_args cl) = Some v" .
      from v chain_one [OF m [OF main_vault(1) [OF a v s]]] show ?thesis
        by (intro exI [of _ v] conjI)
    qed
    show "\<exists>v. supplied [''--vault-file-path'', ''-f''] (sub_args cl) = Some v \<and>
              tr = [vault_of ''edit'' v]"
      if s: "subcommand cl = Some ''edit_vault''"
    proof -
      have "''edit_vault'' \<in> {''encrypt_vault'', ''edit_vault'', ''view_vault'', ''rekey_vault''}"
        by simp
      from vault_file_given [OF a s this] obtain v
        where v: "supplied [''--vault-file-path'', ''-f''] (sub_args cl) = Some v" .
      from v chain_one [OF m [OF main_vault(2) [OF a v s]]] show ?thesis
        by (intro exI [of _ v] conjI)
    qed
    show "\<exists>v. supplied [''--vault-file-path'', ''-f''] (sub_args cl) = Some v \<and>
              tr = [vault_of ''view'' v]"
      if s: "subcommand cl = Some ''view_vault''"
    proof -
      have "''view_vault'' \<in> {''encrypt_vault'', ''edit_vault'', ''view_vault'', ''rekey_vault''}"
        by simp
      from vault_file_given [OF a s this] obtain v
        where v: "supplied [''--vault-file-path'', ''-f''] (sub_args cl) = Some v" .
      from v chain_one [OF m [OF main_vault(3) [OF a v s]]] show ?thesis
        by (intro exI [of _ v] conjI)
    qed
    show "\<exists>v. supplied [''--vault-file-path'', ''-f''] (sub_args cl) = Some v \<and>
              tr = [vault_of ''rekey'' v]"
      if s: "subcommand cl = Some ''rekey_vault''"
    proof -
      have "''rekey_vault'' \<in> {''encrypt_vault'', ''edit_vault'', ''view_vault'', ''rekey_vault''}"
        by simp
      from vault_file_given [OF a s this] obtain v
        where v: "supplied [''--vault-file-path'', ''-f''] (sub_args cl) = Some v" .
      from v chain_one [OF m [OF main_vault(4) [OF a v s]]] show ?thesis
        by (intro exI [of _ v] conjI)
    qed
  qed
  from every va li vo lint accepted show ?thesis by (intro conjI)
qed

theorem working_directories_witness:
  "parse_args ''/home/u/project''
     \<lparr>global_opts = [], subcommand = Some ''enter'', sub_args = [Opt ''-f'' ''/vm'']\<rparr>
     = Inr \<lparr>ns_subcommand = Some ''enter'', ns_attrs = [(''vagrantfile_path'', ''/vm'')]\<rparr> \<and>
   main (\<lambda>tr i. 255) ''/home/u/project''
     \<lparr>global_opts = [], subcommand = Some ''enter'', sub_args = [Opt ''-f'' ''/vm'']\<rparr>
     = (Inl (CalledProcessError 255 [''vagrant'', ''ssh'']),
        [\<lparr>cmd = [''vagrant'', ''ssh''], workdir = Some ''/vm''\<rparr>]) \<and>
   [\<lparr>cmd = [''vagrant'', ''ssh''], workdir = Some ''/vm''\<rparr>]
     = [vagrant_at ''ssh'' (resolved_vagrantfile ''/home/u/project''
          \<lparr>global_opts = [], subcommand = Some ''enter'', sub_args = [Opt ''-f'' ''/vm'']\<rparr>)]"
proof -
  let ?w = "\<lambda>(tr :: trace) (i :: invocation). 255 :: int"
  let ?cl = "\<lparr>global_opts = [], subcommand = Some ''enter'', sub_args = [Opt ''-f'' ''/vm'']\<rparr>"
  let ?tr = "[\<lparr>cmd = [''vagrant'', ''ssh''], workdir = Some ''/vm''\<rparr>]"
  have p: "parse_args ''/home/u/project'' ?cl
             = Inr \<lparr>ns_subcommand = Some ''enter'', ns_attrs = [(''vagrantfile_path'', ''/vm'')]\<rparr>"
    by code_simp
  have m: "main ?w ''/home/u/project'' ?cl
             = (Inl (CalledProcessError 255 [''vagrant'', ''ssh'']), ?tr)"
    by code_simp
  have s: "subcommand ?cl = Some ''enter''" by simp
  from p have e: "\<exists>args. parse_args ''/home/u/project'' ?cl = Inr args" by (intro exI)
  have "?tr = [vagrant_at ''ssh'' (resolved_vagrantfile ''/home/u/project'' ?cl)]"
    by (rule working_directories [OF m, THEN conjunct2, THEN conjunct2, THEN conjunct2,
          THEN conjunct2, THEN conjunct2, THEN mp, OF e, THEN conjunct2, THEN conjunct1,
          THEN mp, OF s])
  with p m show ?thesis by (intro conjI)
qed

subsection \<open>C9: status and validate_vagrant keep no state\<close>

text \<open>
  C9. For \<^verbatim>\<open>status\<close> and \<^verbatim>\<open>validate_vagrant\<close>, the processes of a run are the same
  whatever the outside world answers, now or in earlier runs: they depend on the
  command line and the starting directory only. A run starts nothing when the parser
  rejects the command line, and otherwise the one \<^verbatim>\<open>vagrant\<close> command in the
  vagrantfile path.
\<close>

theorem status_invocation_is_stateless:
  assumes "subcommand cl = Some sc" and "sc \<in> {''status'', ''validate_vagrant''}"
  shows "snd (main w cwd cl) = snd (main w' cwd cl) \<and>
         (snd (main w cwd cl) = [] \<or>
          snd (main w cwd cl)
            = [vagrant_at (if sc = ''status'' then ''status'' else ''validate'')
                 (resolved_vagrantfile cwd cl)])"
proof (cases "parse_args cwd cl")
  case (Inl e)
  from main_Inl [OF Inl] show ?thesis by simp
next
  case (Inr args)
  show ?thesis
  proof (cases "sc = ''status''")
    case True
    with main_vm1(1) [OF Inr] assms(1) show ?thesis by simp
  next
    case False
    with assms(2) have "sc = ''validate_vagrant''" by simp
    with main_vm1(4) [OF Inr] assms(1) show ?thesis by simp
  qed
qed

theorem status_invocation_is_stateless_witness:
  "snd (main (\<lambda>tr i. 0) ''/home/u/project''
          \<lparr>global_opts = [], subcommand = Some ''status'', sub_args = [Opt ''-f'' ''/vm'']\<rparr>)
     = snd (main (\<lambda>tr i. 1) ''/home/u/project''
          \<lparr>global_opts = [], subcommand = Some ''status'', sub_args = [Opt ''-f'' ''/vm'']\<rparr>) \<and>
   snd (main (\<lambda>tr i. 0) ''/home/u/project''
          \<lparr>global_opts = [], subcommand = Some ''status'', sub_args = [Opt ''-f'' ''/vm'']\<rparr>)
     = [\<lparr>cmd = [''vagrant'', ''status''], workdir = Some ''/vm''\<rparr>]"
proof -
  let ?cl = "\<lparr>global_opts = [], subcommand = Some ''status'', sub_args = [Opt ''-f'' ''/vm'']\<rparr>"
  have a: "subcommand ?cl = Some ''status''" by simp
  have m: "snd (main (\<lambda>tr i. 0) ''/home/u/project'' ?cl)
             = [\<lparr>cmd = [''vagrant'', ''status''], workdir = Some ''/vm''\<rparr>]"
    by code_simp
  have "snd (main (\<lambda>tr i. 0) ''/home/u/project'' ?cl)
          = snd (main (\<lambda>tr i. 1) ''/home/u/project'' ?cl)"
    using status_invocation_is_stateless [OF a, of "\<lambda>tr i. 0" "''/home/u/project''" "\<lambda>tr i. 1"]
    by simp
  with m show ?thesis by simp
qed

subsection \<open>C10: extra keyword arguments\<close>

text \<open>
  C10. Every function the module dispatches to is declared with \<^verbatim>\<open>**kwargs\<close> and has
  no parameter called \<^verbatim>\<open>subcommand\<close>, so the key \<^verbatim>\<open>subcommand\<close> that \<^verbatim>\<open>main\<close>
  always passes is an extra keyword. A call with keywords that give every parameter a
  value never raises \<open>TypeError\<close>, whatever other keywords it carries; two calls whose
  keywords agree on the parameters do the same; and no run of \<^verbatim>\<open>main\<close> ends in a
  \<open>TypeError\<close>.
\<close>

theorem handlers_accept_extra_keywords:
  assumes "(name, f) \<in> set module_functions"
  shows "var_kw f \<and> ''subcommand'' \<notin> set (params f) \<and>
         (list_all (\<lambda>p. map_of kw p \<noteq> None) (params f) \<longrightarrow>
            fst (call_kw f kw w tr) \<noteq> Inl TypeError) \<and>
         ((\<forall>p \<in> set (params f). map_of kw p = map_of kw' p) \<longrightarrow>
            call_kw f kw w tr = call_kw f kw' w tr) \<and>
         fst (main w cwd cl) \<noteq> Inl TypeError"
proof -
  have a: "var_kw f \<and> ''subcommand'' \<notin> set (params f) \<and>
         (list_all (\<lambda>p. map_of kw p \<noteq> None) (params f) \<longrightarrow>
            fst (call_kw f kw w tr) \<noteq> Inl TypeError)"
    using assms
  proof (cases rule: module_functions_cases)
    case 1
    then show ?thesis
      using fn2_accepts [OF runs_are_chains(1), of "''vagrantfile_path''" "''playbook_path''"]
      by simp
  next
    case 2
    then show ?thesis using fn1_accepts [OF runs_are_chains(2), of "''vagrantfile_path''"] by simp
  next
    case 3
    then show ?thesis
      using fn2_accepts [OF runs_are_chains(3), of "''vagrantfile_path''" "''playbook_path''"]
      by simp
  next
    case 4
    then show ?thesis using fn1_accepts [OF runs_are_chains(4), of "''vagrantfile_path''"] by simp
  next
    case 5
    then show ?thesis using fn1_accepts [OF runs_are_chains(5), of "''vagrantfile_path''"] by simp
  next
    case 6
    then show ?thesis
      using fn2_accepts [OF runs_are_chains(6), of "''vagrantfile_path''" "''playbook_path''"]
      by simp
  next
    case 7
    then show ?thesis using fn1_accepts [OF runs_are_chains(7), of "''vagrantfile_path''"] by simp
  next
    case 8
    then show ?thesis using fn1_accepts [OF runs_are_chains(8), of "''playbook_path''"] by simp
  next
    case 9
    then show ?thesis using fn1_accepts [OF runs_are_chains(9), of "''vault_file_path''"] by simp
  next
    case 10
    then show ?thesis using fn1_accepts [OF runs_are_chains(10), of "''vault_file_path''"] by simp
  next
    case 11
    then show ?thesis using fn1_accepts [OF runs_are_chains(11), of "''vault_file_path''"] by simp
  next
    case 12
    then show ?thesis using fn1_accepts [OF runs_are_chains(12), of "''vault_file_path''"] by simp
  qed
  then have "var_kw f" by simp
  then have "(\<forall>p \<in> set (params f). map_of kw p = map_of kw' p) \<longrightarrow>
            call_kw f kw w tr = call_kw f kw' w tr"
    by (intro impI call_kw_agree)
  with a main_no_TypeError [of w cwd cl] show ?thesis by simp
qed

theorem handlers_accept_extra_keywords_witness:
  "(''status'', fn1 ''vagrantfile_path'' status) \<in> set module_functions \<and>
   call_kw (fn1 ''vagrantfile_path'' status)
       [(''subcommand'', ''status''), (''vagrantfile_path'', ''/vm'')] (\<lambda>tr i. 0) []
     = call_kw (fn1 ''vagrantfile_path'' status) [(''vagrantfile_path'', ''/vm'')] (\<lambda>tr i. 0) [] \<and>
   call_kw (fn1 ''vagrantfile_path'' status)
       [(''subcommand'', ''status''), (''vagrantfile_path'', ''/vm'')] (\<lambda>tr i. 0) []
     = (Inr (), [\<lparr>cmd = [''vagrant'', ''status''], workdir = Some ''/vm''\<rparr>])"
proof -
  let ?f = "fn1 ''vagrantfile_path'' status"
  let ?kw = "[(''subcommand'', ''status''), (''vagrantfile_path'', ''/vm'')]"
  let ?kw' = "[(''vagrantfile_path'', ''/vm'')]"
  let ?w = "\<lambda>(tr :: trace) (i :: invocation). 0 :: int"
  have a: "(''status'', ?f) \<in> set module_functions" by (simp add: module_functions_def)
  have p: "\<forall>p \<in> set (params ?f). map_of ?kw p = map_of ?kw' p" by (simp add: fn1_def)
  have "call_kw ?f ?kw ?w [] = call_kw ?f ?kw' ?w []"
    using handlers_accept_extra_keywords [OF a, of ?kw ?w "[]" ?kw'] p by blast
  moreover have "call_kw ?f ?kw ?w []
                   = (Inr (), [\<lparr>cmd = [''vagrant'', ''status''], workdir = Some ''/vm''\<rparr>])"
    by (simp add: call_kw_def fn1_def status_run vagrant_at_def)
  ultimately show ?thesis using a by simp
qed


end
